theory Spec2Isabelle
  imports Main "HOL-Library.Multiset"
begin

section \<open>Values of the program\<close>

text \<open>
  A JavaScript string is a sequence of UTF-16 code units, and the regular expressions and
  the comparisons of \<^verbatim>\<open>server.js\<close> work on code units. A string is therefore a list
  of code units, each a natural number; \<open>str\<close> turns a literal of the theory into one.

  A JavaScript number is a double. The numbers of the program (ids, the counter, sizes,
  time values in milliseconds since the epoch) have integer values, and a number is
  modelled by its value, an \<open>int\<close>. The result of an addition is the double nearest to the
  exact sum, with ties going to the even significand: \<open>ulp m\<close> is the distance between
  neighbouring doubles at the magnitude \<open>m\<close>, which is \<open>1\<close> below \<open>2^53\<close> and doubles with
  every further bit, and \<open>double_of_nat\<close> rounds to a multiple of it. All sums of the
  program stay far below the largest double.
\<close>

type_synonym jsstring = "nat list"

definition str :: "string \<Rightarrow> jsstring" where
  "str s = map of_char s"

function ulp :: "nat \<Rightarrow> nat" where
  "ulp m = (if m < 9007199254740992 then 1 else 2 * ulp (m div 2))"
  by pat_completeness auto
termination
  by (relation "measure (\<lambda>m. m)") auto

declare ulp.simps [simp del]

definition double_of_nat :: "nat \<Rightarrow> nat" where
  "double_of_nat m =
     (let u = ulp m; q = m div u; r = m mod u
      in if u < 2 * r \<or> (u = 2 * r \<and> odd q) then (q + 1) * u else q * u)"

definition double_of_int :: "int \<Rightarrow> int" where
  "double_of_int m =
     (if m < 0 then - int (double_of_nat (nat (- m))) else int (double_of_nat (nat m)))"

definition js_add :: "int \<Rightarrow> int \<Rightarrow> int" where
  "js_add a b = double_of_int (a + b)"

section \<open>The record store\<close>

text \<open>
  The object literal built in the upload handler (\<open>fileInfo\<close>) and the object that
  \<open>addFile\<close> stores: \<open>id\<close>, the fields of \<open>fileInfo\<close>, \<open>uploadDate\<close> and
  \<open>status\<close>. \<open>uploadDate\<close> is written as an ISO-8601 string and read back with
  \<^verbatim>\<open>new Date(...)\<close>; the model keeps the time value that the string denotes.
\<close>

record fileInfo =
  filename :: jsstring
  originalName :: jsstring
  type_rec :: jsstring
  size_rec :: int
  hash :: jsstring
  notes_rec :: jsstring
  path :: jsstring

record file_record = fileInfo +
  id_rec :: int
  uploadDate :: int
  status :: jsstring

text \<open>The document of \<^verbatim>\<open>files.json\<close>: \<^verbatim>\<open>{ files: [...], nextId: n }\<close>.\<close>

record store =
  files :: "file_record list"
  nextId :: int

text \<open>
  What is on disk at \<open>dbPath\<close>: either a document, or something that
  \<^verbatim>\<open>fs.readFileSync\<close> or \<^verbatim>\<open>JSON.parse\<close> throws on (no file, or text that
  is not JSON).
\<close>

datatype dbfile = Unreadable | Document store

definition db_read :: "dbfile \<Rightarrow> store" where
  "db_read d = (case d of
                  Document data \<Rightarrow> data
                | Unreadable \<Rightarrow> \<lparr>files = [], nextId = 1\<rparr>)"

definition db_write :: "store \<Rightarrow> dbfile" where
  "db_write data = Document data"

text \<open>
  \<open>addFile\<close> reads the clock once (\<open>now\<close>). It returns the stored object and the new
  content of the disk. \<^verbatim>\<open>data.nextId++\<close> gives the old value of the counter and stores
  the sum of that value and \<open>1\<close>.
\<close>

definition addFile :: "dbfile \<Rightarrow> int \<Rightarrow> fileInfo \<Rightarrow> file_record \<times> dbfile" where
  "addFile d now info =
     (let data = db_read d;
          file = \<lparr>filename = filename info, originalName = originalName info,
                  type_rec = type_rec info, size_rec = size_rec info, hash = hash info,
                  notes_rec = notes_rec info, path = path info,
                  id_rec = nextId data, uploadDate = now, status = str ''uploaded''\<rparr>;
          data' = \<lparr>files = files data @ [file], nextId = js_add (nextId data) 1\<rparr>
      in (file, db_write data'))"

text \<open>
  \<^verbatim>\<open>Array.prototype.sort\<close> with a comparison function is a stable sort: \<open>a\<close> stays
  before \<open>b\<close> unless the comparison says that \<open>a\<close> is greater. Insertion from the right
  end computes it.
\<close>

definition compareUploadDate :: "file_record \<Rightarrow> file_record \<Rightarrow> int" where
  "compareUploadDate a b = uploadDate b - uploadDate a"

fun insert_sorted :: "('a \<Rightarrow> 'a \<Rightarrow> int) \<Rightarrow> 'a \<Rightarrow> 'a list \<Rightarrow> 'a list" where
  "insert_sorted cmp x [] = [x]"
| "insert_sorted cmp x (y # ys) =
     (if cmp x y \<le> 0 then x # y # ys else y # insert_sorted cmp x ys)"

definition array_sort :: "('a \<Rightarrow> 'a \<Rightarrow> int) \<Rightarrow> 'a list \<Rightarrow> 'a list" where
  "array_sort cmp xs = foldr (insert_sorted cmp) xs []"

definition getFiles :: "dbfile \<Rightarrow> file_record list" where
  "getFiles d = array_sort compareUploadDate (files (db_read d))"

text \<open>
  \<open>getFileById\<close> and \<open>deleteFile\<close> compare with \<^verbatim>\<open>parseInt(id)\<close>. Their argument
  here is that number: \<open>Some n\<close>, or \<open>None\<close> for \<open>NaN\<close>, which \<^verbatim>\<open>===\<close> equates with
  nothing.
\<close>

definition matches_id :: "int option \<Rightarrow> file_record \<Rightarrow> bool" where
  "matches_id pid f = (pid = Some (id_rec f))"

definition getFileById :: "dbfile \<Rightarrow> int option \<Rightarrow> file_record option" where
  "getFileById d pid = find (matches_id pid) (files (db_read d))"

text \<open>\<open>findIndex\<close>: the first index whose element satisfies the test, \<open>-1\<close> if none does.\<close>

fun findIndex :: "('a \<Rightarrow> bool) \<Rightarrow> 'a list \<Rightarrow> int" where
  "findIndex P [] = -1"
| "findIndex P (x # xs) =
     (if P x then 0 else (let i = findIndex P xs in if i > -1 then i + 1 else -1))"

text \<open>\<open>splice(index, 1)\<close>: the removed elements and the array that is left.\<close>

definition splice1 :: "'a list \<Rightarrow> nat \<Rightarrow> 'a list \<times> 'a list" where
  "splice1 xs i = (take 1 (drop i xs), take i xs @ drop (Suc i) xs)"

definition deleteFile :: "dbfile \<Rightarrow> int option \<Rightarrow> file_record option \<times> dbfile" where
  "deleteFile d pid =
     (let data = db_read d;
          index = findIndex (matches_id pid) (files data)
      in if index > -1
         then (case splice1 (files data) (nat index) of
                 (removed, rest) \<Rightarrow>
                   (case removed of
                      file # _ \<Rightarrow> (Some file, db_write (data\<lparr>files := rest\<rparr>))
                    | [] \<Rightarrow> (None, db_write (data\<lparr>files := rest\<rparr>))))
         else (None, d))"

text \<open>
  \<open>getStats\<close>. \<open>byType\<close> is an object used as a dictionary; its keys keep the order in
  which they were first set. \<^verbatim>\<open>x || 0\<close> is \<open>0\<close> when \<open>x\<close> is \<open>0\<close> or missing.
\<close>

record stats =
  totalFiles :: int
  totalSize :: int
  byType :: "(jsstring \<times> int) list"

definition or0 :: "int option \<Rightarrow> int" where
  "or0 v = (case v of None \<Rightarrow> 0 | Some n \<Rightarrow> (if n = 0 then 0 else n))"

fun set_key :: "'k \<Rightarrow> 'v \<Rightarrow> ('k \<times> 'v) list \<Rightarrow> ('k \<times> 'v) list" where
  "set_key k v [] = [(k, v)]"
| "set_key k v ((k', v') # m) = (if k = k' then (k, v) # m else (k', v') # set_key k v m)"

definition count_type :: "(jsstring \<times> int) list \<Rightarrow> file_record \<Rightarrow> (jsstring \<times> int) list" where
  "count_type m f = set_key (type_rec f) (or0 (map_of m (type_rec f)) + 1) m"

definition getStats :: "dbfile \<Rightarrow> stats" where
  "getStats d =
     (let fs = getFiles d
      in \<lparr>totalFiles = int (length fs),
          totalSize = foldl (\<lambda>sum f. sum + or0 (Some (size_rec f))) 0 fs,
          byType = foldl count_type [] fs\<rparr>)"

text \<open>
  Sequences of calls on the store: \<open>apply_ops\<close> runs them from left to right and returns
  the ids that the \<open>addFile\<close> calls assigned, in call order, with the final disk.
\<close>

datatype db_op = Append int fileInfo | Remove "int option"

fun apply_ops :: "dbfile \<Rightarrow> db_op list \<Rightarrow> int list \<times> dbfile" where
  "apply_ops d [] = ([], d)"
| "apply_ops d (Append now info # ops) =
     (case addFile d now info of
        (saved, d') \<Rightarrow> (case apply_ops d' ops of (ids, d'') \<Rightarrow> (id_rec saved # ids, d'')))"
| "apply_ops d (Remove pid # ops) = apply_ops (snd (deleteFile d pid)) ops"

section \<open>File names\<close>

text \<open>
  \<^verbatim>\<open>path.extname\<close> on POSIX paths: trailing slashes are dropped, the last component is
  taken, and the result runs from its last dot to its end. It is empty when the component
  has no dot, when nothing stands before the last dot, and when the component is \<open>..\<close>.
\<close>

definition last_component :: "jsstring \<Rightarrow> jsstring" where
  "last_component p = rev (takeWhile (\<lambda>c. c \<noteq> 47) (dropWhile (\<lambda>c. c = 47) (rev p)))"

definition extname :: "jsstring \<Rightarrow> jsstring" where
  "extname p =
     (let base = last_component p;
          after_dot = rev (takeWhile (\<lambda>c. c \<noteq> 46) (rev base));
          before_dot = take (length base - length after_dot - 1) base
      in if 46 \<notin> set base \<or> before_dot = [] \<or> base = [46, 46] then []
         else 46 # after_dot)"

text \<open>
  \<^verbatim>\<open>String.prototype.toLowerCase\<close> is a built-in with the case tables of Unicode. The
  functions that call it take it as their first argument, \<open>toLowerCase\<close>, and nothing is
  assumed of it.
\<close>

text \<open>
  Look-ups in \<open>ALLOWED_EXTENSIONS\<close> use the result of \<open>extname\<close>, which is empty or starts
  with a dot, so they never find a property inherited from \<^verbatim>\<open>Object.prototype\<close>.
\<close>

definition ALLOWED_EXTENSIONS :: "(jsstring \<times> jsstring) list" where
  "ALLOWED_EXTENSIONS =
     [(str ''.xlsx'', str ''spreadsheet''),
      (str ''.xls'', str ''spreadsheet''),
      (str ''.csv'', str ''spreadsheet''),
      (str ''.ofx'', str ''ofx''),
      (str ''.pdf'', str ''pdf'')]"

definition MAX_FILE_SIZE :: nat where
  "MAX_FILE_SIZE = 50 * 1024 * 1024"

text \<open>A non-empty string is truthy, the empty string and a missing property are not.\<close>

definition truthy :: "jsstring option \<Rightarrow> bool" where
  "truthy v = (case v of None \<Rightarrow> False | Some s \<Rightarrow> s \<noteq> [])"

text \<open>
  \<open>fileFilter\<close> calls back with an error and \<open>false\<close>, or with no error and \<open>true\<close>:
  \<open>Inl\<close> carries the error's message, \<open>Inr\<close> the flag.
\<close>

definition fileFilter :: "(jsstring \<Rightarrow> jsstring) \<Rightarrow> jsstring \<Rightarrow> jsstring + bool" where
  "fileFilter toLowerCase originalname =
     (let ext = toLowerCase (extname originalname)
      in if truthy (map_of ALLOWED_EXTENSIONS ext) then Inr True
         else Inl (str ''File type '' @ ext @ str '' is not allowed''))"

text \<open>
  \<open>toISOString\<close> of a time value: the civil date of the day number, then the time of day,
  as \<^verbatim>\<open>YYYY-MM-DDTHH:mm:ss.sssZ\<close>; years outside \<open>0..9999\<close> are written with a sign
  and six digits.
\<close>

fun pad :: "nat \<Rightarrow> nat \<Rightarrow> jsstring" where
  "pad 0 n = []"
| "pad (Suc k) n = pad k (n div 10) @ [48 + n mod 10]"

definition civil_from_days :: "int \<Rightarrow> int \<times> int \<times> int" where
  "civil_from_days days =
     (let z = days + 719468;
          era = z div 146097;
          doe = z mod 146097;
          yoe = (doe - doe div 1460 + doe div 36524 - doe div 146096) div 365;
          doy = doe - (365 * yoe + yoe div 4 - yoe div 100);
          mp = (5 * doy + 2) div 153;
          d = doy - (153 * mp + 2) div 5 + 1;
          m = (if mp < 10 then mp + 3 else mp - 9);
          y = yoe + era * 400
      in (if m \<le> 2 then y + 1 else y, m, d))"

definition toISOString :: "int \<Rightarrow> jsstring" where
  "toISOString t =
     (let ms = t mod 86400000 in
      case civil_from_days (t div 86400000) of
        (y, m, d) \<Rightarrow>
          (if 0 \<le> y \<and> y \<le> 9999 then pad 4 (nat y)
           else (if y < 0 then 45 else 43) # pad 6 (nat \<bar>y\<bar>))
          @ str ''-'' @ pad 2 (nat m) @ str ''-'' @ pad 2 (nat d)
          @ str ''T'' @ pad 2 (nat (ms div 3600000))
          @ str '':'' @ pad 2 (nat (ms div 60000 mod 60))
          @ str '':'' @ pad 2 (nat (ms div 1000 mod 60))
          @ str ''.'' @ pad 3 (nat (ms mod 1000)) @ str ''Z'')"

text \<open>
  The \<open>filename\<close> function of the disk storage. The first \<open>replace\<close> turns \<open>:\<close> and \<open>.\<close>
  into \<open>-\<close>; the second turns every code unit outside \<^verbatim>\<open>[a-zA-Z0-9._-]\<close> into \<open>_\<close>.
\<close>

definition replace_colon_dot :: "jsstring \<Rightarrow> jsstring" where
  "replace_colon_dot s = map (\<lambda>c. if c = 58 \<or> c = 46 then 45 else c) s"

definition safe_unit :: "nat \<Rightarrow> bool" where
  "safe_unit c =
     ((97 \<le> c \<and> c \<le> 122) \<or> (65 \<le> c \<and> c \<le> 90) \<or> (48 \<le> c \<and> c \<le> 57)
      \<or> c = 46 \<or> c = 95 \<or> c = 45)"

definition replace_unsafe :: "jsstring \<Rightarrow> jsstring" where
  "replace_unsafe s = map (\<lambda>c. if safe_unit c then c else 95) s"

definition storage_filename :: "int \<Rightarrow> jsstring \<Rightarrow> jsstring" where
  "storage_filename now originalname =
     (let timestamp = replace_colon_dot (toISOString now);
          safeName = replace_unsafe originalname
      in timestamp @ str ''_'' @ safeName)"

section \<open>Requests and responses\<close>

text \<open>
  The body that \<^verbatim>\<open>res.json\<close> sends is a JSON value; the keys of an object are in the
  order in which the object literal lists them.
\<close>

datatype json =
    JBool bool
  | JNumber int
  | JString jsstring
  | JArray "json list"
  | JObject "(jsstring \<times> json) list"

record response =
  code :: nat
  body :: json

definition file_json :: "file_record \<Rightarrow> json" where
  "file_json f =
     JObject [(str ''id'', JNumber (id_rec f)),
              (str ''filename'', JString (filename f)),
              (str ''originalName'', JString (originalName f)),
              (str ''type'', JString (type_rec f)),
              (str ''size'', JNumber (size_rec f)),
              (str ''hash'', JString (hash f)),
              (str ''notes'', JString (notes_rec f)),
              (str ''path'', JString (path f)),
              (str ''uploadDate'', JString (toISOString (uploadDate f))),
              (str ''status'', JString (status f))]"

definition stats_json :: "stats \<Rightarrow> json" where
  "stats_json s =
     JObject [(str ''totalFiles'', JNumber (totalFiles s)),
              (str ''totalSize'', JNumber (totalSize s)),
              (str ''byType'', JObject (map (\<lambda>(k, n). (k, JNumber n)) (byType s)))]"

definition failure :: "nat \<Rightarrow> jsstring \<Rightarrow> response" where
  "failure c msg =
     \<lparr>code = c, body = JObject [(str ''success'', JBool False), (str ''error'', JString msg)]\<rparr>"

text \<open>\<^verbatim>\<open>GET /api/files\<close> and \<^verbatim>\<open>GET /api/stats\<close>.\<close>

definition get_files :: "dbfile \<Rightarrow> response" where
  "get_files d =
     \<lparr>code = 200,
      body = JObject [(str ''success'', JBool True),
                      (str ''files'', JArray (map file_json (getFiles d)))]\<rparr>"

definition get_stats :: "dbfile \<Rightarrow> response" where
  "get_stats d =
     \<lparr>code = 200,
      body = JObject [(str ''success'', JBool True),
                      (str ''stats'', stats_json (getStats d))]\<rparr>"

text \<open>
  The server's files: the record store and the upload directory, a map from the path of a
  blob to its bytes. \<open>path.join (UPLOAD_DIR, name)\<close> is written relative to
  \<open>__dirname\<close>, for a \<open>name\<close> that is one path component. Reading a path without a
  file fails; writing and unlinking succeed, so the \<open>catch\<close> clauses that answer with
  status 500 have no run here.
\<close>

type_synonym filesystem = "jsstring \<rightharpoonup> nat list"

record world =
  disk :: dbfile
  uploads :: filesystem

definition UPLOAD_DIR :: jsstring where
  "UPLOAD_DIR = str ''uploads''"

definition path_join :: "jsstring \<Rightarrow> jsstring \<Rightarrow> jsstring" where
  "path_join dir name = dir @ str ''/'' @ name"

text \<open>
  \<open>upload.array ('files', 20)\<close>. The upload middleware is a library; this is its contract,
  for the file parts of one multipart request in their order. \<open>part_name\<close> is the file
  name of the part as the client sent it. The middleware is built without \<open>preservePath\<close>,
  so the multipart parser keeps of that name what follows the last slash or backslash,
  and nothing when that is \<open>.\<close> or \<open>..\<close>: this is \<open>basename\<close>, and it is what the
  middleware reports in \<open>file.originalname\<close>. A part whose reported name is empty is
  passed over. Then \<open>filesLeft\<close>, which starts at 20, is checked and lowered, and
  \<open>fileFilter\<close> is asked. A part when no file is left, a part that \<open>fileFilter\<close> answers
  with an error, and a part longer than \<open>limits.fileSize\<close> abort the request: the blobs
  that the request has stored are removed and the error goes to the error-handling
  middleware, so the route's handler does not run. A part that the filter accepts is
  stored under the name that \<open>storage\<close> gives it and becomes an element of \<open>req.files\<close>.
  \<open>clock\<close> gives the readings of the clock during the request, \<open>k\<close> counts the readings
  taken.
\<close>

record part =
  part_name :: jsstring
  part_bytes :: "nat list"

record upload_file =
  originalname :: jsstring
  filename_up :: jsstring
  path_up :: jsstring
  size_up :: int

datatype js_error = Error jsstring | MulterError jsstring jsstring

definition basename :: "jsstring \<Rightarrow> jsstring" where
  "basename p =
     (let b = rev (takeWhile (\<lambda>c. c \<noteq> 47 \<and> c \<noteq> 92) (rev p))
      in if b = [46, 46] \<or> b = [46] then [] else b)"

definition remove_uploaded :: "upload_file list \<Rightarrow> filesystem \<Rightarrow> filesystem" where
  "remove_uploaded fs_done fs = foldl (\<lambda>m f. m(path_up f := None)) fs fs_done"

fun upload_array ::
  "(jsstring \<Rightarrow> jsstring) \<Rightarrow> (nat \<Rightarrow> int) \<Rightarrow> nat \<Rightarrow> filesystem \<Rightarrow> nat \<Rightarrow> upload_file list
     \<Rightarrow> part list \<Rightarrow> (js_error + upload_file list) \<times> filesystem \<times> nat" where
  "upload_array toLowerCase clock k fs filesLeft acc [] = (Inr acc, fs, k)"
| "upload_array toLowerCase clock k fs filesLeft acc (p # ps) =
     (if basename (part_name p) = []
      then upload_array toLowerCase clock k fs filesLeft acc ps
      else if filesLeft = 0
      then (Inl (MulterError (str ''LIMIT_UNEXPECTED_FILE'') (str ''Unexpected field'')),
            remove_uploaded acc fs, k)
      else (case fileFilter toLowerCase (basename (part_name p)) of
              Inl msg \<Rightarrow> (Inl (Error msg), remove_uploaded acc fs, k)
            | Inr False \<Rightarrow> upload_array toLowerCase clock k fs (filesLeft - 1) acc ps
            | Inr True \<Rightarrow>
                (let name = storage_filename (clock k) (basename (part_name p));
                     f = \<lparr>originalname = basename (part_name p), filename_up = name,
                          path_up = path_join UPLOAD_DIR name,
                          size_up = int (length (part_bytes p))\<rparr>
                 in if MAX_FILE_SIZE < length (part_bytes p)
                    then (Inl (MulterError (str ''LIMIT_FILE_SIZE'') (str ''File too large'')),
                          remove_uploaded (acc @ [f]) fs, Suc k)
                    else upload_array toLowerCase clock (Suc k)
                           (fs(path_up f \<mapsto> part_bytes p)) (filesLeft - 1) (acc @ [f]) ps)))"

text \<open>
  \<open>getFileHash\<close>: \<open>readFileSync\<close> throws when there is no file at the path; \<open>md5\<close> is the
  digest in hexadecimal.
\<close>

definition getFileHash :: "(nat list \<Rightarrow> jsstring) \<Rightarrow> filesystem \<Rightarrow> jsstring \<Rightarrow> jsstring + jsstring" where
  "getFileHash md5 fs filepath =
     (case fs filepath of
        None \<Rightarrow> Inl (str ''ENOENT: no such file or directory, open '' @ [39] @ filepath @ [39])
      | Some fileBuffer \<Rightarrow> Inr (md5 fileBuffer))"

text \<open>\<^verbatim>\<open>ALLOWED_EXTENSIONS[ext] || 'unknown'\<close>.\<close>

definition type_or_unknown :: "jsstring \<Rightarrow> jsstring" where
  "type_or_unknown ext =
     (if truthy (map_of ALLOWED_EXTENSIONS ext) then the (map_of ALLOWED_EXTENSIONS ext)
      else str ''unknown'')"

text \<open>
  The route \<^verbatim>\<open>POST /api/upload\<close>. \<open>upload_each\<close> is the body of the \<open>forEach\<close>: its
  state is the disk, \<open>uploadedFiles\<close>, \<open>errors\<close> and the count of clock readings.
\<close>

type_synonym upload_state = "dbfile \<times> file_record list \<times> (jsstring \<times> jsstring) list \<times> nat"

definition upload_each ::
  "(jsstring \<Rightarrow> jsstring) \<Rightarrow> (nat list \<Rightarrow> jsstring) \<Rightarrow> (nat \<Rightarrow> int) \<Rightarrow> filesystem \<Rightarrow> jsstring
     \<Rightarrow> upload_state \<Rightarrow> upload_file \<Rightarrow> upload_state" where
  "upload_each toLowerCase md5 clock fs notes st f =
     (case st of (d, uploadedFiles, errors, k) \<Rightarrow>
        (let ext = toLowerCase (extname (originalname f))
         in case getFileHash md5 fs (path_up f) of
              Inl message \<Rightarrow> (d, uploadedFiles, errors @ [(originalname f, message)], k)
            | Inr fileHash \<Rightarrow>
                (let fileInfo =
                       \<lparr>filename = filename_up f, originalName = originalname f,
                        type_rec = type_or_unknown ext,
                        size_rec = size_up f, hash = fileHash, notes_rec = notes,
                        path = path_up f\<rparr>
                 in case addFile d (clock k) fileInfo of
                      (savedFile, d') \<Rightarrow> (d', uploadedFiles @ [savedFile], errors, Suc k))))"

function decimal :: "nat \<Rightarrow> jsstring" where
  "decimal n = (if n < 10 then [48 + n] else decimal (n div 10) @ [48 + n mod 10])"
  by pat_completeness auto
termination
  by (relation "measure (\<lambda>n. n)") auto

definition error_json :: "jsstring \<times> jsstring \<Rightarrow> json" where
  "error_json e = JObject [(str ''filename'', JString (fst e)), (str ''error'', JString (snd e))]"

definition upload_handler ::
  "(jsstring \<Rightarrow> jsstring) \<Rightarrow> (nat list \<Rightarrow> jsstring) \<Rightarrow> (nat \<Rightarrow> int) \<Rightarrow> nat \<Rightarrow> world
     \<Rightarrow> jsstring option \<Rightarrow> upload_file list \<Rightarrow> world \<times> response" where
  "upload_handler toLowerCase md5 clock k w body_notes req_files =
     (if req_files = [] then (w, failure 400 (str ''No files uploaded''))
      else
        (let notes = (if truthy body_notes then the body_notes else [])
         in case foldl (upload_each toLowerCase md5 clock (uploads w) notes)
                   (disk w, [], [], k) req_files of
              (d, uploadedFiles, errors, _) \<Rightarrow>
                (w\<lparr>disk := d\<rparr>,
                 \<lparr>code = 200,
                  body = JObject
                    [(str ''success'', JBool (0 < length uploadedFiles)),
                     (str ''uploaded'', JArray (map file_json uploadedFiles)),
                     (str ''errors'', JArray (map error_json errors)),
                     (str ''message'',
                      JString (str ''Successfully uploaded '' @ decimal (length uploadedFiles)
                               @ str '' file(s)''))]\<rparr>)))"

text \<open>The error-handling middleware at the end of the file.\<close>

definition error_middleware :: "js_error \<Rightarrow> response" where
  "error_middleware err =
     (case err of
        MulterError c message \<Rightarrow>
          (if c = str ''LIMIT_FILE_SIZE''
           then failure 400 (str ''File too large. Maximum size is 50MB.'')
           else failure 500 message)
      | Error message \<Rightarrow> failure 500 message)"

definition post_upload ::
  "(jsstring \<Rightarrow> jsstring) \<Rightarrow> (nat list \<Rightarrow> jsstring) \<Rightarrow> (nat \<Rightarrow> int) \<Rightarrow> world
     \<Rightarrow> jsstring option \<Rightarrow> part list \<Rightarrow> world \<times> response" where
  "post_upload toLowerCase md5 clock w body_notes parts =
     (case upload_array toLowerCase clock 0 (uploads w) 20 [] parts of
        (Inl err, fs, _) \<Rightarrow> (w\<lparr>uploads := fs\<rparr>, error_middleware err)
      | (Inr req_files, fs, k) \<Rightarrow>
          upload_handler toLowerCase md5 clock k (w\<lparr>uploads := fs\<rparr>) body_notes req_files)"

text \<open>The route \<^verbatim>\<open>DELETE /api/files/:id\<close>; \<open>pid\<close> is \<^verbatim>\<open>parseInt(req.params.id)\<close>.\<close>

definition delete_file :: "world \<Rightarrow> int option \<Rightarrow> world \<times> response" where
  "delete_file w pid =
     (case deleteFile (disk w) pid of
        (None, d) \<Rightarrow> (w\<lparr>disk := d\<rparr>, failure 404 (str ''File not found''))
      | (Some f, d) \<Rightarrow>
          (let filePath = path_join UPLOAD_DIR (filename f);
               fs = (if uploads w filePath \<noteq> None then (uploads w)(filePath := None)
                     else uploads w)
           in (w\<lparr>disk := d, uploads := fs\<rparr>,
               \<lparr>code = 200,
                body = JObject [(str ''success'', JBool True),
                                (str ''message'', JString (str ''File deleted successfully''))]\<rparr>)))"

section \<open>Example values\<close>

text \<open>
  A record, the fields of an upload, a digest function, a clock, a part of three bytes and
  a batch of three parts, for the concrete runs below.
\<close>

definition sample_file :: "int \<Rightarrow> jsstring \<Rightarrow> int \<Rightarrow> file_record" where
  "sample_file i name t =
     \<lparr>filename = storage_filename t name, originalName = name, type_rec = str ''pdf'',
      size_rec = 3, hash = str ''900150983cd24fb0d6963f7d28e17f72'', notes_rec = [],
      path = path_join UPLOAD_DIR (storage_filename t name),
      id_rec = i, uploadDate = t, status = str ''uploaded''\<rparr>"

definition sample_info :: fileInfo where
  "sample_info =
     \<lparr>filename = str ''2023-11-14T22-13-20-000Z_a.pdf'', originalName = str ''a.pdf'',
      type_rec = str ''pdf'', size_rec = 3, hash = str ''900150983cd24fb0d6963f7d28e17f72'',
      notes_rec = [], path = str ''uploads/2023-11-14T22-13-20-000Z_a.pdf''\<rparr>"

text \<open>
  What \<open>toLowerCase\<close> gives on a string of ASCII code units; the names of the concrete
  runs are such strings.
\<close>

definition toLowerCase_ascii :: "jsstring \<Rightarrow> jsstring" where
  "toLowerCase_ascii s = map (\<lambda>c. if 65 \<le> c \<and> c \<le> 90 then c + 32 else c) s"

definition sample_md5 :: "nat list \<Rightarrow> jsstring" where
  "sample_md5 bytes = str ''900150983cd24fb0d6963f7d28e17f72''"

definition sample_clock :: "nat \<Rightarrow> int" where
  "sample_clock k = 1700000000000 + int k"

definition sample_part :: "jsstring \<Rightarrow> part" where
  "sample_part name = \<lparr>part_name = name, part_bytes = [97, 98, 99]\<rparr>"

definition three_parts :: "part list" where
  "three_parts =
     [sample_part (str ''a.csv''), sample_part (str ''b.exe''), sample_part (str ''c.pdf'')]"

text \<open>A server that has stored nothing, and one whose only record has lost its blob.\<close>

definition empty_world :: world where
  "empty_world = \<lparr>disk = Unreadable, uploads = Map.empty\<rparr>"

definition orphan_world :: world where
  "orphan_world =
     \<lparr>disk = Document \<lparr>files = [sample_file 7 (str ''a.pdf'') 1700000000000], nextId = 8\<rparr>,
      uploads = Map.empty\<rparr>"

section \<open>Properties of the numbers\<close>

lemma ulp_small: "m < 9007199254740992 \<Longrightarrow> ulp m = 1"
  by (simp add: ulp.simps)

lemma ulp_big: "9007199254740992 \<le> m \<Longrightarrow> ulp m = 2 * ulp (m div 2)"
  by (subst ulp.simps) simp

lemma ulp_pow2: "\<exists>j. ulp m = 2 ^ j"
proof (induction m rule: ulp.induct)
  case (1 m)
  show ?case
  proof (cases "m < 9007199254740992")
    case True
    then have "ulp m = 2 ^ 0" by (simp add: ulp_small)
    then show ?thesis by blast
  next
    case False
    from "1.IH"[OF False] obtain j where "ulp (m div 2) = 2 ^ j" by blast
    then have "ulp m = 2 ^ Suc j" using False by (simp add: ulp_big)
    then show ?thesis by blast
  qed
qed

lemma ulp_pos: "0 < ulp m"
  using ulp_pow2[of m] by auto

lemma ulp_upper: "m < 9007199254740992 * ulp m"
proof (induction m rule: ulp.induct)
  case (1 m)
  show ?case
  proof (cases "m < 9007199254740992")
    case True
    then show ?thesis by (simp add: ulp_small)
  next
    case False
    from "1.IH"[OF False] have "m div 2 < 9007199254740992 * ulp (m div 2)" .
    then show ?thesis using False by (simp add: ulp_big)
  qed
qed

lemma ulp_lower: "1 < ulp m \<Longrightarrow> 4503599627370496 * ulp m \<le> m"
proof (induction m rule: ulp.induct)
  case (1 m)
  show ?case
  proof (cases "m < 9007199254740992")
    case True
    then show ?thesis using "1.prems" by (simp add: ulp_small)
  next
    case False
    show ?thesis
    proof (cases "1 < ulp (m div 2)")
      case True
      from "1.IH"[OF False True] show ?thesis using False by (simp add: ulp_big)
    next
      case F: False
      obtain j where "ulp (m div 2) = 2 ^ j" using ulp_pow2 by blast
      moreover have "0 < j \<Longrightarrow> (1::nat) < 2 ^ j" by (rule one_less_power) simp_all
      ultimately have "ulp (m div 2) = 1" using F by (cases "j = 0") auto
      then show ?thesis using False by (simp add: ulp_big)
    qed
  qed
qed

lemma ulp_eqI:
  "m < 9007199254740992 * 2 ^ j \<Longrightarrow> (0 < j \<longrightarrow> 4503599627370496 * 2 ^ j \<le> m) \<Longrightarrow>
   ulp m = 2 ^ j"
proof (induction j arbitrary: m)
  case 0
  then show ?case by (simp add: ulp_small)
next
  case (Suc j)
  have "(1::nat) \<le> 2 ^ j" by simp
  then have "(9007199254740992::nat) \<le> 9007199254740992 * 2 ^ j" by simp
  moreover have "9007199254740992 * 2 ^ j \<le> m" using Suc.prems(2) by simp
  ultimately have big: "9007199254740992 \<le> m" by (rule order_trans)
  have "m div 2 < 9007199254740992 * 2 ^ j" using Suc.prems(1) by simp
  moreover have "0 < j \<longrightarrow> 4503599627370496 * 2 ^ j \<le> m div 2"
  proof -
    have "2 * (4503599627370496 * 2 ^ j) \<le> m" using Suc.prems(2) by simp
    then have "4503599627370496 * 2 ^ j \<le> m div 2" by linarith
    then show ?thesis by simp
  qed
  ultimately have "ulp (m div 2) = 2 ^ j" by (rule Suc.IH)
  then show ?case using big by (simp add: ulp_big)
qed

lemma pow2_trichotomy:
  "(2::nat) ^ i = 2 ^ j \<or> 2 * 2 ^ i \<le> (2::nat) ^ j \<or> 2 * 2 ^ j \<le> (2::nat) ^ i"
proof -
  consider "i = j" | "i < j" | "j < i" by linarith
  then show ?thesis
  proof cases
    case 1
    then show ?thesis by simp
  next
    case 2
    then have "Suc i \<le> j" by simp
    then have "(2::nat) ^ Suc i \<le> 2 ^ j" by (rule power_increasing) simp
    then show ?thesis by simp
  next
    case 3
    then have "Suc j \<le> i" by simp
    then have "(2::nat) ^ Suc j \<le> 2 ^ i" by (rule power_increasing) simp
    then show ?thesis by simp
  qed
qed

lemma double_of_nat_small: "m < 9007199254740992 \<Longrightarrow> double_of_nat m = m"
  by (simp add: double_of_nat_def ulp_small)

lemma double_of_nat_cases:
  "double_of_nat m = (m div ulp m) * ulp m \<or> double_of_nat m = (m div ulp m + 1) * ulp m"
  by (simp add: double_of_nat_def Let_def)

lemma double_of_nat_dvd: "ulp m dvd double_of_nat m"
  using double_of_nat_cases[of m] by auto

lemma double_of_nat_floor: "(m div ulp m) * ulp m \<le> double_of_nat m"
  using double_of_nat_cases[of m] by auto

lemma double_of_nat_fixI: "ulp m dvd m \<Longrightarrow> double_of_nat m = m"
  by (auto simp: double_of_nat_def Let_def)

text \<open>Rounding gives a double: rounding again changes nothing.\<close>

lemma double_of_nat_idem: "double_of_nat (double_of_nat m) = double_of_nat m"
proof (cases "ulp m = 1")
  case True
  then show ?thesis by (simp add: double_of_nat_def)
next
  case False
  obtain j where j: "ulp m = 2 ^ j" using ulp_pow2 by blast
  have one: "1 < ulp m" using False ulp_pos[of m] by linarith
  let ?u = "ulp m" and ?d = "double_of_nat m"
  have lo: "4503599627370496 * ?u \<le> m" using ulp_lower[OF one] .
  have hi: "m < 9007199254740992 * ?u" by (rule ulp_upper)
  have qlo: "4503599627370496 \<le> m div ?u"
    using lo one by (simp add: less_eq_div_iff_mult_less_eq)
  have qhi: "m div ?u < 9007199254740992"
    using hi one by (simp add: div_less_iff_less_mult)
  have dlo: "4503599627370496 * ?u \<le> ?d"
  proof -
    have "4503599627370496 * ?u \<le> (m div ?u) * ?u" using qlo by simp
    then show ?thesis using double_of_nat_floor[of m] by linarith
  qed
  have dhi: "?d \<le> 9007199254740992 * ?u"
  proof -
    have "(m div ?u + 1) * ?u \<le> 9007199254740992 * ?u" using qhi by simp
    moreover have "(m div ?u) * ?u \<le> (m div ?u + 1) * ?u" by simp
    ultimately show ?thesis using double_of_nat_cases[of m] by linarith
  qed
  show ?thesis
  proof (cases "?d < 9007199254740992 * ?u")
    case True
    have "ulp ?d = 2 ^ j"
      using True dlo j by (intro ulp_eqI) simp_all
    then have "ulp ?d dvd ?d" using j double_of_nat_dvd[of m] by simp
    then show ?thesis by (rule double_of_nat_fixI)
  next
    case F: False
    then have e: "?d = 9007199254740992 * ?u" using dhi by linarith
    have "ulp ?d = 2 ^ Suc j"
      using e j by (intro ulp_eqI) simp_all
    then have "ulp ?d dvd ?d" using e j by simp
    then show ?thesis by (rule double_of_nat_fixI)
  qed
qed

text \<open>Adding \<open>1\<close> to a double that is not negative never gives a smaller double.\<close>

lemma double_of_nat_succ_ge:
  assumes rep: "double_of_nat n = n"
  shows "n \<le> double_of_nat (n + 1)"
proof (cases "n + 1 < 9007199254740992")
  case True
  then show ?thesis by (simp add: double_of_nat_small)
next
  case False
  let ?u = "ulp (n + 1)" and ?v = "ulp n"
  obtain i j where ij: "?u = 2 ^ i" "?v = 2 ^ j" using ulp_pow2 by blast
  have vn: "?v dvd n" using rep double_of_nat_dvd[of n] by simp
  have big: "9007199254740992 \<le> n + 1" using False by simp
  have u2: "1 < ?u"
  proof -
    have "?u = 2 * ulp ((n + 1) div 2)" using big by (rule ulp_big)
    then show ?thesis using ulp_pos[of "(n + 1) div 2"] by linarith
  qed
  have ulo: "4503599627370496 * ?u \<le> n + 1" using ulp_lower[OF u2] .
  have uhi: "n + 1 < 9007199254740992 * ?u" by (rule ulp_upper)
  have vhi: "n < 9007199254740992 * ?v" by (rule ulp_upper)
  have "(n + 1) mod ?u \<le> 1"
  proof -
    from pow2_trichotomy[of i j] consider "?u = ?v" | "2 * ?u \<le> ?v" | "2 * ?v \<le> ?u"
      using ij by auto
    then show ?thesis
    proof cases
      case 1
      then have "?u dvd n" using vn by simp
      then have "(n + 1) mod ?u = 1 mod ?u" by (metis mod_add_left_eq dvd_imp_mod_0 add_0)
      then show ?thesis using u2 by simp
    next
      case 2
      then have "1 < ?v" using ulp_pos[of "n + 1"] by linarith
      from ulp_lower[OF this] have "4503599627370496 * ?v \<le> n" .
      then show ?thesis using 2 uhi by linarith
    next
      case 3
      have "n + 1 = 9007199254740992 * ?v" using 3 ulo vhi by linarith
      moreover have "?u = 2 * ?v" using 3 ulo vhi by linarith
      ultimately have "?u dvd n + 1" by simp
      then show ?thesis by simp
    qed
  qed
  then have "n \<le> ((n + 1) div ?u) * ?u"
    using div_mult_mod_eq[of "n + 1" ?u] by linarith
  then show ?thesis using double_of_nat_floor[of "n + 1"] by linarith
qed

text \<open>
  Sums between \<open>-2^53\<close> and \<open>2^53\<close> are exact; the sum of \<open>2^53\<close> and \<open>1\<close> is \<open>2^53\<close>.
\<close>

lemma double_2_53: "double_of_nat 9007199254740992 = 9007199254740992"
proof -
  have "ulp 9007199254740992 = 2" by (simp add: ulp_big ulp_small)
  then show ?thesis by (simp add: double_of_nat_def)
qed

lemma double_2_53_1: "double_of_nat 9007199254740993 = 9007199254740992"
proof -
  have "ulp 9007199254740993 = 2" by (simp add: ulp_big ulp_small)
  then show ?thesis by (simp add: double_of_nat_def)
qed

lemma js_add_safe:
  "- 9007199254740992 \<le> a + b \<Longrightarrow> a + b \<le> 9007199254740992 \<Longrightarrow> js_add a b = a + b"
proof -
  assume lo: "- 9007199254740992 \<le> a + b" and hi: "a + b \<le> 9007199254740992"
  have e: "double_of_nat (nat \<bar>a + b\<bar>) = nat \<bar>a + b\<bar>"
  proof (cases "\<bar>a + b\<bar> = 9007199254740992")
    case True
    then show ?thesis by (simp add: double_2_53)
  next
    case False
    then have "nat \<bar>a + b\<bar> < 9007199254740992" using lo hi by auto
    then show ?thesis by (rule double_of_nat_small)
  qed
  show ?thesis
  proof (cases "a + b < 0")
    case True
    then show ?thesis using e by (simp add: js_add_def double_of_int_def)
  next
    case False
    then show ?thesis using e by (simp add: js_add_def double_of_int_def)
  qed
qed

lemma js_add_stalls: "js_add 9007199254740992 1 = 9007199254740992"
  by (simp add: js_add_def double_of_int_def double_2_53_1)

lemma js_add_1_keeps_double:
  "0 \<le> n \<Longrightarrow> double_of_int n = n \<Longrightarrow>
   n \<le> js_add n 1 \<and> double_of_int (js_add n 1) = js_add n 1"
proof -
  assume n: "0 \<le> n" and rep: "double_of_int n = n"
  have r: "double_of_nat (nat n) = nat n"
    using n rep by (simp add: double_of_int_def)
  have s: "js_add n 1 = int (double_of_nat (nat n + 1))"
    using n by (simp add: js_add_def double_of_int_def nat_add_distrib)
  have "nat n \<le> double_of_nat (nat n + 1)" using r by (rule double_of_nat_succ_ge)
  then have "n \<le> js_add n 1" using n s by linarith
  moreover have "double_of_int (js_add n 1) = js_add n 1"
    unfolding s by (simp add: double_of_int_def double_of_nat_idem)
  ultimately show ?thesis by simp
qed

section \<open>Properties of the record store\<close>

subsection \<open>Sorting\<close>

lemma mset_insert_sorted: "mset (insert_sorted cmp x xs) = add_mset x (mset xs)"
  by (induction xs) auto

lemma mset_array_sort: "mset (array_sort cmp xs) = mset xs"
  unfolding array_sort_def by (induction xs) (auto simp: mset_insert_sorted)

lemma set_insert_sorted: "set (insert_sorted cmp x xs) = insert x (set xs)"
  by (induction xs) auto

lemma newest_first_insert:
  "sorted_wrt (\<lambda>a b. uploadDate b \<le> uploadDate a) xs \<Longrightarrow>
   sorted_wrt (\<lambda>a b. uploadDate b \<le> uploadDate a) (insert_sorted compareUploadDate x xs)"
  by (induction xs) (auto simp: set_insert_sorted compareUploadDate_def)

lemma newest_first_array_sort:
  "sorted_wrt (\<lambda>a b. uploadDate b \<le> uploadDate a) (array_sort compareUploadDate xs)"
  unfolding array_sort_def by (induction xs) (auto simp: newest_first_insert)

text \<open>
  An element is inserted in front of the first element that is not newer than it, so it
  passes only elements of a different time: the records of one time keep their order.
\<close>

lemma filter_insert_sorted:
  "filter (\<lambda>f. uploadDate f = t) (insert_sorted compareUploadDate x xs) =
   (if uploadDate x = t then x # filter (\<lambda>f. uploadDate f = t) xs
    else filter (\<lambda>f. uploadDate f = t) xs)"
  by (induction xs) (auto simp: compareUploadDate_def)

lemma filter_array_sort:
  "filter (\<lambda>f. uploadDate f = t) (array_sort compareUploadDate xs) =
   filter (\<lambda>f. uploadDate f = t) xs"
  unfolding array_sort_def by (induction xs) (auto simp: filter_insert_sorted)

text \<open>
  C3. \<open>getFiles\<close> returns the records of the store, each as often as it is stored, with
  the time of upload descending from the first to the last; the records that share a time
  of upload \<open>t\<close> are in the order in which the store holds them, which is the order of
  insertion.
\<close>

theorem getFiles_newest_first_stable:
  "sorted_wrt (\<lambda>a b. uploadDate b \<le> uploadDate a) (getFiles d) \<and>
   mset (getFiles d) = mset (files (db_read d)) \<and>
   filter (\<lambda>f. uploadDate f = t) (getFiles d) =
     filter (\<lambda>f. uploadDate f = t) (files (db_read d))"
  by (simp add: getFiles_def newest_first_array_sort mset_array_sort filter_array_sort)

subsection \<open>Removing a record\<close>

lemma findIndex_ge: "- 1 \<le> findIndex P xs"
  by (induction xs) (auto simp: Let_def)

lemma findIndex_found_iff: "findIndex P xs > - 1 \<longleftrightarrow> (\<exists>x \<in> set xs. P x)"
  by (induction xs) (auto simp: Let_def)

lemma findIndex_split:
  "findIndex P xs > - 1 \<Longrightarrow>
   \<exists>ys x zs. xs = ys @ x # zs \<and> P x \<and> (\<forall>y \<in> set ys. \<not> P y) \<and>
     nat (findIndex P xs) = length ys"
proof (induction xs)
  case Nil
  then show ?case by simp
next
  case (Cons a xs)
  show ?case
  proof (cases "P a")
    case True
    then have "a # xs = [] @ a # xs \<and> P a \<and> (\<forall>y \<in> set []. \<not> P y) \<and>
               nat (findIndex P (a # xs)) = length ([]::'a list)"
      by simp
    then show ?thesis by blast
  next
    case False
    with Cons.prems have pos: "findIndex P xs > - 1"
      by (auto simp: Let_def split: if_splits)
    from Cons.IH[OF pos] obtain ys x zs where
      h: "xs = ys @ x # zs" "P x" "\<forall>y \<in> set ys. \<not> P y" "nat (findIndex P xs) = length ys"
      by blast
    have "nat (findIndex P (a # xs)) = length (a # ys)"
      using False pos h(4) findIndex_ge[of P xs] by (simp add: Let_def nat_add_distrib)
    moreover have "a # xs = (a # ys) @ x # zs" using h(1) by simp
    moreover have "\<forall>y \<in> set (a # ys). \<not> P y" using False h(3) by simp
    ultimately show ?thesis using h(2) by blast
  qed
qed

text \<open>
  The two outcomes of \<open>deleteFile\<close>: no record matches and nothing is written, or the
  first matching record is cut out and the rest is written.
\<close>

lemma deleteFile_cases:
  "(fst (deleteFile d pid) = None \<and> snd (deleteFile d pid) = d \<and>
      (\<forall>f \<in> set (files (db_read d)). \<not> matches_id pid f))
   \<or> (\<exists>ys x zs. files (db_read d) = ys @ x # zs \<and> matches_id pid x \<and>
         (\<forall>y \<in> set ys. \<not> matches_id pid y) \<and>
         deleteFile d pid = (Some x, Document ((db_read d)\<lparr>files := ys @ zs\<rparr>)))"
proof (cases "findIndex (matches_id pid) (files (db_read d)) > - 1")
  case False
  then show ?thesis
    using findIndex_found_iff[of "matches_id pid" "files (db_read d)"]
    by (auto simp: deleteFile_def Let_def)
next
  case True
  from findIndex_split[OF True] obtain ys x zs where
    h: "files (db_read d) = ys @ x # zs" "matches_id pid x"
       "\<forall>y \<in> set ys. \<not> matches_id pid y"
       "nat (findIndex (matches_id pid) (files (db_read d))) = length ys"
    by blast
  have "deleteFile d pid = (Some x, Document ((db_read d)\<lparr>files := ys @ zs\<rparr>))"
    using True h(1,4) by (simp add: deleteFile_def Let_def splice1_def db_write_def)
  then show ?thesis using h by blast
qed

lemma addFile_id: "id_rec (fst (addFile d now info)) = nextId (db_read d)"
  by (simp add: addFile_def Let_def)

lemma addFile_nextId:
  "nextId (db_read (snd (addFile d now info))) = js_add (nextId (db_read d)) 1"
  by (simp add: addFile_def Let_def db_write_def db_read_def)

lemma deleteFile_nextId: "nextId (db_read (snd (deleteFile d pid))) = nextId (db_read d)"
  using deleteFile_cases[of d pid] by (auto simp: db_read_def)

text \<open>
  C9. \<open>deleteFile\<close> leaves the counter as it is, leaves the records that do not match the
  id as they are and in their order, and takes away at most one record; this holds
  whether or not a record matches.
\<close>

theorem deleteFile_frame:
  "nextId (db_read (snd (deleteFile d pid))) = nextId (db_read d) \<and>
   filter (\<lambda>f. \<not> matches_id pid f) (files (db_read (snd (deleteFile d pid)))) =
     filter (\<lambda>f. \<not> matches_id pid f) (files (db_read d)) \<and>
   length (files (db_read d)) \<le> length (files (db_read (snd (deleteFile d pid)))) + 1 \<and>
   mset (files (db_read (snd (deleteFile d pid)))) \<subseteq># mset (files (db_read d))"
  using deleteFile_cases[of d pid] by (auto simp: db_read_def deleteFile_nextId)

subsection \<open>Ids\<close>

text \<open>
  While the counter stays between \<open>-2^53\<close> and \<open>2^53\<close>, every \<open>addFile\<close> raises it by
  one, and the ids that a sequence of calls assigns lie between the counter at the start
  and the counter at the end.
\<close>

lemma apply_ops_bounds:
  "- 9007199254740992 \<le> nextId (db_read d) \<Longrightarrow>
   nextId (db_read d) + int (length ops) \<le> 9007199254740992 \<Longrightarrow>
   nextId (db_read d) \<le> nextId (db_read (snd (apply_ops d ops))) \<and>
   nextId (db_read (snd (apply_ops d ops))) \<le> nextId (db_read d) + int (length ops) \<and>
   (\<forall>i \<in> set (fst (apply_ops d ops)).
      nextId (db_read d) \<le> i \<and> i < nextId (db_read (snd (apply_ops d ops))))"
proof (induction d ops rule: apply_ops.induct)
  case (1 d)
  then show ?case by simp
next
  case (2 d now info ops)
  obtain r0 d' where a: "addFile d now info = (r0, d')" by (cases "addFile d now info")
  obtain ids d'' where r: "apply_ops d' ops = (ids, d'')" by (cases "apply_ops d' ops")
  have "js_add (nextId (db_read d)) 1 = nextId (db_read d) + 1"
    using "2.prems" by (intro js_add_safe) simp_all
  then have n: "nextId (db_read d') = nextId (db_read d) + 1" "id_rec r0 = nextId (db_read d)"
    using a addFile_nextId[of d now info] addFile_id[of d now info] by simp_all
  have "- 9007199254740992 \<le> nextId (db_read d')"
    "nextId (db_read d') + int (length ops) \<le> 9007199254740992"
    using "2.prems" n(1) by simp_all
  with "2.IH" a have
    "nextId (db_read d') \<le> nextId (db_read (snd (apply_ops d' ops))) \<and>
     nextId (db_read (snd (apply_ops d' ops))) \<le> nextId (db_read d') + int (length ops) \<and>
     (\<forall>i \<in> set (fst (apply_ops d' ops)).
        nextId (db_read d') \<le> i \<and> i < nextId (db_read (snd (apply_ops d' ops))))"
    by simp
  then show ?case using a r n by auto
next
  case (3 d pid ops)
  have "- 9007199254740992 \<le> nextId (db_read (snd (deleteFile d pid)))"
    "nextId (db_read (snd (deleteFile d pid))) + int (length ops) \<le> 9007199254740992"
    using "3.prems" by (simp_all add: deleteFile_nextId)
  with "3.IH" show ?case by (simp add: deleteFile_nextId)
qed

lemma apply_ops_increasing:
  "- 9007199254740992 \<le> nextId (db_read d) \<Longrightarrow>
   nextId (db_read d) + int (length ops) \<le> 9007199254740992 \<Longrightarrow>
   sorted_wrt (<) (fst (apply_ops d ops))"
proof (induction d ops rule: apply_ops.induct)
  case (1 d)
  then show ?case by simp
next
  case (2 d now info ops)
  obtain r0 d' where a: "addFile d now info = (r0, d')" by (cases "addFile d now info")
  obtain ids d'' where r: "apply_ops d' ops = (ids, d'')" by (cases "apply_ops d' ops")
  have "js_add (nextId (db_read d)) 1 = nextId (db_read d) + 1"
    using "2.prems" by (intro js_add_safe) simp_all
  then have n: "nextId (db_read d') = nextId (db_read d) + 1" "id_rec r0 = nextId (db_read d)"
    using a addFile_nextId[of d now info] addFile_id[of d now info] by simp_all
  have b: "- 9007199254740992 \<le> nextId (db_read d')"
    "nextId (db_read d') + int (length ops) \<le> 9007199254740992"
    using "2.prems" n(1) by simp_all
  have "\<forall>i \<in> set ids. id_rec r0 < i"
    using apply_ops_bounds[OF b] r n by auto
  moreover have "sorted_wrt (<) ids" using "2.IH" a b r by simp
  ultimately show ?case using a r by simp
next
  case (3 d pid ops)
  have "- 9007199254740992 \<le> nextId (db_read (snd (deleteFile d pid)))"
    "nextId (db_read (snd (deleteFile d pid))) + int (length ops) \<le> 9007199254740992"
    using "3.prems" by (simp_all add: deleteFile_nextId)
  with "3.IH" show ?case by simp
qed

text \<open>
  Without a bound: from a counter that is a double and not negative, the counter never
  falls and the assigned ids never fall.
\<close>

lemma apply_ops_never_falls:
  "0 \<le> nextId (db_read d) \<Longrightarrow> double_of_int (nextId (db_read d)) = nextId (db_read d) \<Longrightarrow>
   nextId (db_read d) \<le> nextId (db_read (snd (apply_ops d ops))) \<and>
   (\<forall>i \<in> set (fst (apply_ops d ops)). nextId (db_read d) \<le> i) \<and>
   sorted_wrt (\<le>) (fst (apply_ops d ops))"
proof (induction d ops rule: apply_ops.induct)
  case (1 d)
  then show ?case by simp
next
  case (2 d now info ops)
  obtain r0 d' where a: "addFile d now info = (r0, d')" by (cases "addFile d now info")
  obtain ids d'' where r: "apply_ops d' ops = (ids, d'')" by (cases "apply_ops d' ops")
  have n: "nextId (db_read d') = js_add (nextId (db_read d)) 1" "id_rec r0 = nextId (db_read d)"
    using a addFile_nextId[of d now info] addFile_id[of d now info] by simp_all
  from js_add_1_keeps_double[OF "2.prems"] have
    k: "nextId (db_read d) \<le> nextId (db_read d')"
       "double_of_int (nextId (db_read d')) = nextId (db_read d')"
    using n(1) by simp_all
  then have "0 \<le> nextId (db_read d')" using "2.prems"(1) by linarith
  with "2.IH" a k(2) have
    "nextId (db_read d') \<le> nextId (db_read (snd (apply_ops d' ops))) \<and>
     (\<forall>i \<in> set (fst (apply_ops d' ops)). nextId (db_read d') \<le> i) \<and>
     sorted_wrt (\<le>) (fst (apply_ops d' ops))"
    by simp
  then show ?case using a r n(2) k(1) by auto
next
  case (3 d pid ops)
  then show ?case by (simp add: deleteFile_nextId)
qed

text \<open>
  C2, as stated, from any store state: it fails on the document with no records and the
  counter \<open>2^53\<close>. The sum of the counter and \<open>1\<close> is not a double and is rounded back to
  \<open>2^53\<close>, so two \<open>addFile\<close> calls assign the same id.
\<close>

theorem ids_repeat_at_2_53:
  "fst (apply_ops (Document \<lparr>files = [], nextId = 9007199254740992\<rparr>)
         [Append 1700000000000 sample_info, Append 1700000000001 sample_info]) =
     [9007199254740992, 9007199254740992]"
  by (simp add: addFile_def db_read_def db_write_def Let_def js_add_stalls)

text \<open>
  C2, amended. From a store state whose counter is at least \<open>-2^53\<close>, for a sequence of
  \<open>addFile\<close> and \<open>deleteFile\<close> calls that does not take it beyond \<open>2^53\<close>, the ids that the
  \<open>addFile\<close> calls assign are strictly increasing in call order, hence pairwise different.
  From every store state whose counter is a double and not negative, the assigned ids
  never fall and the counter never falls, over a sequence of calls and over one
  \<open>addFile\<close>. A \<open>deleteFile\<close> keeps the counter in every state.
\<close>

theorem ids_strictly_increasing:
  "(- 9007199254740992 \<le> nextId (db_read d) \<and>
    nextId (db_read d) + int (length ops) \<le> 9007199254740992 \<longrightarrow>
      sorted_wrt (<) (fst (apply_ops d ops)) \<and> distinct (fst (apply_ops d ops))) \<and>
   (0 \<le> nextId (db_read d) \<and> double_of_int (nextId (db_read d)) = nextId (db_read d) \<longrightarrow>
      sorted_wrt (\<le>) (fst (apply_ops d ops)) \<and>
      nextId (db_read d) \<le> nextId (db_read (snd (apply_ops d ops))) \<and>
      nextId (db_read d) \<le> nextId (db_read (snd (addFile d now info)))) \<and>
   nextId (db_read d) = nextId (db_read (snd (deleteFile d pid)))"
proof -
  have one: "- 9007199254740992 \<le> nextId (db_read d) \<and>
    nextId (db_read d) + int (length ops) \<le> 9007199254740992 \<longrightarrow>
      sorted_wrt (<) (fst (apply_ops d ops)) \<and> distinct (fst (apply_ops d ops))"
  proof
    assume h: "- 9007199254740992 \<le> nextId (db_read d) \<and>
      nextId (db_read d) + int (length ops) \<le> 9007199254740992"
    then have s: "sorted_wrt (<) (fst (apply_ops d ops))"
      using apply_ops_increasing[of d ops] by simp
    then have "distinct (fst (apply_ops d ops))"
      using strict_sorted_iff by blast
    with s show "sorted_wrt (<) (fst (apply_ops d ops)) \<and> distinct (fst (apply_ops d ops))"
      by simp
  qed
  have two: "0 \<le> nextId (db_read d) \<and> double_of_int (nextId (db_read d)) = nextId (db_read d) \<longrightarrow>
      sorted_wrt (\<le>) (fst (apply_ops d ops)) \<and>
      nextId (db_read d) \<le> nextId (db_read (snd (apply_ops d ops))) \<and>
      nextId (db_read d) \<le> nextId (db_read (snd (addFile d now info)))"
    using apply_ops_never_falls[of d ops] js_add_1_keeps_double[of "nextId (db_read d)"]
    by (simp add: addFile_nextId)
  show ?thesis using one two by (simp add: deleteFile_nextId)
qed

theorem ids_strictly_increasing_witness:
  "- 9007199254740992 \<le> nextId (db_read (Document \<lparr>files = [], nextId = 9007199254740990\<rparr>)) \<and>
   nextId (db_read (Document \<lparr>files = [], nextId = 9007199254740990\<rparr>))
     + int (length [Append 1700000000000 sample_info, Append 1700000000001 sample_info])
     \<le> 9007199254740992 \<and>
   0 \<le> nextId (db_read (Document \<lparr>files = [], nextId = 9007199254740990\<rparr>)) \<and>
   double_of_int (nextId (db_read (Document \<lparr>files = [], nextId = 9007199254740990\<rparr>))) =
     nextId (db_read (Document \<lparr>files = [], nextId = 9007199254740990\<rparr>)) \<and>
   fst (apply_ops (Document \<lparr>files = [], nextId = 9007199254740990\<rparr>)
         [Append 1700000000000 sample_info, Append 1700000000001 sample_info]) =
     [9007199254740990, 9007199254740991] \<and>
   sorted_wrt (<) (fst (apply_ops (Document \<lparr>files = [], nextId = 9007199254740990\<rparr>)
         [Append 1700000000000 sample_info, Append 1700000000001 sample_info])) \<and>
   distinct (fst (apply_ops (Document \<lparr>files = [], nextId = 9007199254740990\<rparr>)
         [Append 1700000000000 sample_info, Append 1700000000001 sample_info])) \<and>
   nextId (db_read (Document \<lparr>files = [], nextId = 9007199254740990\<rparr>)) \<le>
     nextId (db_read (snd (apply_ops (Document \<lparr>files = [], nextId = 9007199254740990\<rparr>)
         [Append 1700000000000 sample_info, Append 1700000000001 sample_info])))"
proof -
  let ?d = "Document \<lparr>files = [], nextId = 9007199254740990\<rparr>"
  let ?ops = "[Append 1700000000000 sample_info, Append 1700000000001 sample_info]"
  have n: "nextId (db_read ?d) = 9007199254740990" by (simp add: db_read_def)
  have rep: "double_of_int (nextId (db_read ?d)) = nextId (db_read ?d)"
    unfolding n by (simp add: double_of_int_def double_of_nat_small)
  have a1: "js_add 9007199254740990 1 = 9007199254740991" by (simp add: js_add_safe)
  have ids: "fst (apply_ops ?d ?ops) = [9007199254740990, 9007199254740991]"
    by (simp add: addFile_def db_read_def db_write_def Let_def a1)
  have h1: "- 9007199254740992 \<le> nextId (db_read ?d) \<and>
            nextId (db_read ?d) + int (length ?ops) \<le> 9007199254740992"
    unfolding n by simp
  have h2: "0 \<le> nextId (db_read ?d) \<and> double_of_int (nextId (db_read ?d)) = nextId (db_read ?d)"
    using rep unfolding n by simp
  from ids_strictly_increasing[of ?d ?ops 1700000000000 sample_info "Some 1"] h1 h2
  have "sorted_wrt (<) (fst (apply_ops ?d ?ops)) \<and> distinct (fst (apply_ops ?d ?ops)) \<and>
        nextId (db_read ?d) \<le> nextId (db_read (snd (apply_ops ?d ?ops)))"
    by blast
  then show ?thesis using ids rep unfolding n by simp
qed

text \<open>
  The ids of the stored records stay pairwise different and below the counter under
  \<open>addFile\<close> and \<open>deleteFile\<close>, while the counter stays between \<open>-2^53\<close> and \<open>2^53\<close>.
\<close>

lemma addFile_files:
  "files (db_read (snd (addFile d now info))) = files (db_read d) @ [fst (addFile d now info)]"
  by (simp add: addFile_def Let_def db_write_def db_read_def)

lemma deleteFile_files_subset:
  "mset (files (db_read (snd (deleteFile d pid)))) \<subseteq># mset (files (db_read d))"
  using deleteFile_cases[of d pid] by (auto simp: db_read_def)

lemma deleteFile_keeps_distinct:
  "distinct (map id_rec (files (db_read d))) \<Longrightarrow>
   distinct (map id_rec (files (db_read (snd (deleteFile d pid)))))"
  using deleteFile_cases[of d pid] by (auto simp: db_read_def)

lemma apply_ops_keeps_ids_distinct:
  "- 9007199254740992 \<le> nextId (db_read d) \<Longrightarrow>
   nextId (db_read d) + int (length ops) \<le> 9007199254740992 \<Longrightarrow>
   distinct (map id_rec (files (db_read d))) \<Longrightarrow>
   \<forall>f \<in> set (files (db_read d)). id_rec f < nextId (db_read d) \<Longrightarrow>
   distinct (map id_rec (files (db_read (snd (apply_ops d ops))))) \<and>
   (\<forall>f \<in> set (files (db_read (snd (apply_ops d ops)))).
      id_rec f < nextId (db_read (snd (apply_ops d ops))))"
proof (induction d ops rule: apply_ops.induct)
  case (1 d)
  then show ?case by simp
next
  case (2 d now info ops)
  obtain r0 d' where a: "addFile d now info = (r0, d')" by (cases "addFile d now info")
  have f: "files (db_read d') = files (db_read d) @ [r0]"
    using a addFile_files[of d now info] by simp
  have "js_add (nextId (db_read d)) 1 = nextId (db_read d) + 1"
    using "2.prems"(1,2) by (intro js_add_safe) simp_all
  then have n: "nextId (db_read d') = nextId (db_read d) + 1" "id_rec r0 = nextId (db_read d)"
    using a addFile_nextId[of d now info] addFile_id[of d now info] by simp_all
  have b: "- 9007199254740992 \<le> nextId (db_read d')"
    "nextId (db_read d') + int (length ops) \<le> 9007199254740992"
    using "2.prems"(1,2) n(1) by simp_all
  have "distinct (map id_rec (files (db_read d')))"
    using "2.prems"(3,4) f n by auto
  moreover have "\<forall>f \<in> set (files (db_read d')). id_rec f < nextId (db_read d')"
    using "2.prems"(4) f n by auto
  ultimately have "distinct (map id_rec (files (db_read (snd (apply_ops d' ops))))) \<and>
   (\<forall>f \<in> set (files (db_read (snd (apply_ops d' ops)))).
      id_rec f < nextId (db_read (snd (apply_ops d' ops))))"
    using "2.IH" a b by simp
  then show ?case using a by (auto split: prod.splits)
next
  case (3 d pid ops)
  have b: "- 9007199254740992 \<le> nextId (db_read (snd (deleteFile d pid)))"
    "nextId (db_read (snd (deleteFile d pid))) + int (length ops) \<le> 9007199254740992"
    using "3.prems"(1,2) by (simp_all add: deleteFile_nextId)
  have "distinct (map id_rec (files (db_read (snd (deleteFile d pid)))))"
    using "3.prems"(3) by (rule deleteFile_keeps_distinct)
  moreover have "\<forall>f \<in> set (files (db_read (snd (deleteFile d pid)))).
      id_rec f < nextId (db_read (snd (deleteFile d pid)))"
    using "3.prems"(4) set_mset_mono[OF deleteFile_files_subset[of d pid]]
    by (auto simp: deleteFile_nextId)
  ultimately show ?case using "3.IH" b by simp
qed

subsection \<open>Looking up a removed id\<close>

lemma find_None_iff_all: "find P xs = None \<longleftrightarrow> (\<forall>x \<in> set xs. \<not> P x)"
  by (induction xs) auto



subsection \<open>An unreadable or empty store\<close>

lemma getFiles_no_records: "files (db_read d) = [] \<Longrightarrow> getFiles d = []"
  by (simp add: getFiles_def array_sort_def)

lemma getStats_no_records:
  "files (db_read d) = [] \<Longrightarrow> getStats d = \<lparr>totalFiles = 0, totalSize = 0, byType = []\<rparr>"
  by (simp add: getStats_def getFiles_no_records)

text \<open>
  C6. When the file of the store cannot be read or parsed, \<open>db.read\<close> returns the state
  with no records and \<open>nextId = 1\<close>, and every operation of the store gives what it gives
  on that state: the listing is empty, no id is found, the statistics are zero, a
  \<open>deleteFile\<close> finds nothing and writes nothing, and an \<open>addFile\<close> assigns id \<open>1\<close> and
  writes a document with that one record.
\<close>

theorem unreadable_store_is_empty_store:
  "db_read Unreadable = \<lparr>files = [], nextId = 1\<rparr> \<and>
   getFiles Unreadable = [] \<and>
   getFileById Unreadable pid = None \<and>
   getStats Unreadable = \<lparr>totalFiles = 0, totalSize = 0, byType = []\<rparr> \<and>
   deleteFile Unreadable pid = (None, Unreadable) \<and>
   addFile Unreadable now info = addFile (Document \<lparr>files = [], nextId = 1\<rparr>) now info \<and>
   id_rec (fst (addFile Unreadable now info)) = 1 \<and>
   snd (addFile Unreadable now info) =
     Document \<lparr>files = [fst (addFile Unreadable now info)], nextId = 2\<rparr>"
proof -
  have "js_add 1 1 = 2" by (simp add: js_add_safe)
  then show ?thesis
    by (simp add: db_read_def getFiles_def array_sort_def getFileById_def getStats_def
        deleteFile_def addFile_def db_write_def Let_def)
qed

text \<open>
  C4, as stated: the object that \<open>getStats\<close> returns on a store without records is not
  \<^verbatim>\<open>{totalCount:0, totalSize:0, byType:{}}\<close>, its first key is \<open>totalFiles\<close>.
\<close>

theorem empty_stats_key_is_not_totalCount:
  "stats_json (getStats (Document \<lparr>files = [], nextId = 1\<rparr>)) \<noteq>
     JObject [(str ''totalCount'', JNumber 0), (str ''totalSize'', JNumber 0),
              (str ''byType'', JObject [])]"
  by (simp add: getStats_def getFiles_def array_sort_def db_read_def stats_json_def str_def)

text \<open>
  C4, amended. On a store without records \<open>getStats\<close> returns the count \<open>0\<close>, the size
  \<open>0\<close> and an empty \<open>byType\<close>, which is sent as
  \<^verbatim>\<open>{totalFiles:0, totalSize:0, byType:{}}\<close>.
\<close>

theorem getStats_empty_store:
  "files (db_read d) = [] \<Longrightarrow>
   getStats d = \<lparr>totalFiles = 0, totalSize = 0, byType = []\<rparr> \<and>
   stats_json (getStats d) =
     JObject [(str ''totalFiles'', JNumber 0), (str ''totalSize'', JNumber 0),
              (str ''byType'', JObject [])]"
  by (simp add: getStats_no_records stats_json_def)

theorem getStats_empty_store_witness:
  "files (db_read (Document \<lparr>files = [], nextId = 4\<rparr>)) = [] \<and>
   getStats (Document \<lparr>files = [], nextId = 4\<rparr>) =
     \<lparr>totalFiles = 0, totalSize = 0, byType = []\<rparr> \<and>
   stats_json (getStats (Document \<lparr>files = [], nextId = 4\<rparr>)) =
     JObject [(str ''totalFiles'', JNumber 0), (str ''totalSize'', JNumber 0),
              (str ''byType'', JObject [])]"
proof -
  have e: "files (db_read (Document \<lparr>files = [], nextId = 4\<rparr>)) = []"
    by (simp add: db_read_def)
  show ?thesis using e getStats_empty_store[OF e] by blast
qed

section \<open>Properties of the upload and delete routes\<close>

subsection \<open>The code units of a stored name\<close>

lemma pad_digits: "set (pad k n) \<subseteq> {48..57}"
  by (induction k n rule: pad.induct) auto

lemma toISOString_units:
  "set (toISOString t) \<subseteq> {48..57} \<union> {43, 45, 46, 58, 84, 90}"
  using pad_digits
  by (auto simp: toISOString_def Let_def str_def split: prod.splits dest!: subsetD[OF pad_digits])

lemma timestamp_units:
  "set (replace_colon_dot (toISOString t)) \<subseteq> {48..57} \<union> {43, 45, 84, 90}"
  using toISOString_units[of t] by (auto simp: replace_colon_dot_def)

lemma replace_unsafe_units: "c \<in> set (replace_unsafe s) \<Longrightarrow> safe_unit c"
  by (auto simp: replace_unsafe_def safe_unit_def)

lemma storage_filename_units:
  "c \<in> set (storage_filename now name) \<Longrightarrow> safe_unit c \<or> c = 43"
  using timestamp_units[of now] replace_unsafe_units[of c name]
  by (auto simp: storage_filename_def Let_def str_def safe_unit_def)

lemma storage_filename_no_separator:
  "47 \<notin> set (storage_filename now name) \<and> 92 \<notin> set (storage_filename now name)"
  using storage_filename_units[of 47 now name] storage_filename_units[of 92 now name]
  by (auto simp: safe_unit_def)

lemma storage_filename_not_dots:
  "storage_filename now name \<noteq> str ''.'' \<and> storage_filename now name \<noteq> str ''..''"
proof -
  have "95 \<in> set (storage_filename now name)"
    by (simp add: storage_filename_def Let_def str_def)
  then show ?thesis by (auto simp: str_def)
qed

lemma replace_unsafe_eq:
  "replace_unsafe name =
   map (\<lambda>c. if c \<in> {97..122} \<union> {65..90} \<union> {48..57} \<union> {46, 95, 45} then c else 95) name"
  by (auto simp: replace_unsafe_def safe_unit_def)

subsection \<open>The extension filter\<close>

lemma allowed_types:
  "map_of ALLOWED_EXTENSIONS ext = Some v \<Longrightarrow>
   v \<in> {str ''spreadsheet'', str ''ofx'', str ''pdf''}"
  by (simp add: ALLOWED_EXTENSIONS_def split: if_splits)

lemma truthy_allowed:
  "truthy (map_of ALLOWED_EXTENSIONS ext) \<longleftrightarrow> map_of ALLOWED_EXTENSIONS ext \<noteq> None"
  by (auto simp: truthy_def ALLOWED_EXTENSIONS_def str_def split: option.splits if_splits)

lemma fileFilter_accepts_iff:
  "fileFilter toLowerCase name = Inr True \<longleftrightarrow>
   map_of ALLOWED_EXTENSIONS (toLowerCase (extname name)) \<noteq> None"
  by (simp add: fileFilter_def Let_def truthy_allowed)

lemma fileFilter_rejects:
  "map_of ALLOWED_EXTENSIONS (toLowerCase (extname name)) = None \<Longrightarrow>
   fileFilter toLowerCase name =
     Inl (str ''File type '' @ toLowerCase (extname name) @ str '' is not allowed'')"
  by (simp add: fileFilter_def Let_def truthy_allowed)

lemma type_of_accepted:
  "fileFilter toLowerCase name = Inr True \<Longrightarrow>
   type_or_unknown (toLowerCase (extname name)) \<in> {str ''spreadsheet'', str ''ofx'', str ''pdf''}"
proof -
  assume "fileFilter toLowerCase name = Inr True"
  then obtain v where v: "map_of ALLOWED_EXTENSIONS (toLowerCase (extname name)) = Some v"
    by (auto simp: fileFilter_accepts_iff)
  then have "type_or_unknown (toLowerCase (extname name)) = v"
    using truthy_allowed[of "toLowerCase (extname name)"] by (simp add: type_or_unknown_def)
  then show ?thesis using allowed_types[OF v] by simp
qed

lemma unknown_not_allowed:
  "str ''unknown'' \<notin> {str ''spreadsheet'', str ''ofx'', str ''pdf''}"
  by (simp add: str_def)

subsection \<open>The reported name\<close>

lemma basename_no_separator: "47 \<notin> set (basename s) \<and> 92 \<notin> set (basename s)"
  by (auto simp: basename_def Let_def dest: set_takeWhileD)

lemma basename_plain:
  "47 \<notin> set s \<Longrightarrow> 92 \<notin> set s \<Longrightarrow> s \<noteq> str ''.'' \<Longrightarrow> s \<noteq> str ''..'' \<Longrightarrow> basename s = s"
proof -
  assume a: "47 \<notin> set s" "92 \<notin> set s" and d: "s \<noteq> str ''.''" "s \<noteq> str ''..''"
  have "takeWhile (\<lambda>c. c \<noteq> 47 \<and> c \<noteq> 92) (rev s) = rev s"
    using a by (intro takeWhile_eq_all_conv[THEN iffD2]) auto
  then have t: "rev (takeWhile (\<lambda>c. c \<noteq> 47 \<and> c \<noteq> 92) (rev s)) = s"
    by (simp only: rev_rev_ident)
  show ?thesis unfolding basename_def Let_def t using d by (simp add: str_def)
qed

subsection \<open>The upload middleware\<close>

text \<open>
  When every part has a reported name and is within the limits and some part has an
  extension outside the allow-list, the middleware ends with the error that \<open>fileFilter\<close>
  gave for the first such part.
\<close>

lemma upload_array_rejects:
  "length parts \<le> filesLeft \<Longrightarrow>
   \<forall>p \<in> set parts. basename (part_name p) \<noteq> [] \<and> length (part_bytes p) \<le> MAX_FILE_SIZE \<Longrightarrow>
   find (\<lambda>p. map_of ALLOWED_EXTENSIONS (toLowerCase (extname (basename (part_name p)))) = None)
     parts = Some q \<Longrightarrow>
   fst (upload_array toLowerCase clock k fs filesLeft acc parts) =
     Inl (Error (str ''File type '' @ toLowerCase (extname (basename (part_name q)))
                 @ str '' is not allowed''))"
proof (induction parts arbitrary: k fs filesLeft acc)
  case Nil
  then show ?case by simp
next
  case (Cons p ps)
  have named: "basename (part_name p) \<noteq> []" using Cons.prems(2) by simp
  have left: "filesLeft \<noteq> 0" using Cons.prems(1) by auto
  show ?case
  proof (cases "map_of ALLOWED_EXTENSIONS (toLowerCase (extname (basename (part_name p)))) = None")
    case True
    then have "q = p" using Cons.prems(3) by simp
    then show ?thesis using True named left by (simp add: fileFilter_rejects)
  next
    case False
    then have acc: "fileFilter toLowerCase (basename (part_name p)) = Inr True"
      by (simp add: fileFilter_accepts_iff)
    have rest:
      "find (\<lambda>p. map_of ALLOWED_EXTENSIONS (toLowerCase (extname (basename (part_name p)))) = None)
         ps = Some q"
      using False Cons.prems(3) by auto
    have small: "\<not> MAX_FILE_SIZE < length (part_bytes p)" using Cons.prems(2) by simp
    have "fst (upload_array toLowerCase clock (Suc k)
            (fs(path_join UPLOAD_DIR (storage_filename (clock k) (basename (part_name p)))
                  \<mapsto> part_bytes p))
            (filesLeft - 1)
            (acc @ [\<lparr>originalname = basename (part_name p),
                      filename_up = storage_filename (clock k) (basename (part_name p)),
                      path_up = path_join UPLOAD_DIR
                                  (storage_filename (clock k) (basename (part_name p))),
                      size_up = int (length (part_bytes p))\<rparr>]) ps) =
          Inl (Error (str ''File type '' @ toLowerCase (extname (basename (part_name q)))
                      @ str '' is not allowed''))"
      using Cons.prems(1,2) rest by (intro Cons.IH) simp_all
    then show ?thesis using acc small named left by (simp add: Let_def)
  qed
qed

text \<open>
  When the middleware hands over \<open>req.files\<close>, each of its elements comes from a part
  that the filter accepted, carries the reported name of the part and the name that the
  storage gave it, and its blob is in the upload directory.
\<close>

lemma upload_array_accepted:
  "upload_array toLowerCase clock k fs filesLeft acc parts = (Inr req_files, fs', k') \<Longrightarrow>
   \<exists>news. req_files = acc @ news \<and>
     (\<forall>f \<in> set news. \<exists>p \<in> set parts. \<exists>j.
        fileFilter toLowerCase (basename (part_name p)) = Inr True \<and>
        originalname f = basename (part_name p) \<and>
        filename_up f = storage_filename (clock j) (basename (part_name p)) \<and>
        path_up f = path_join UPLOAD_DIR (filename_up f))"
proof (induction parts arbitrary: k fs filesLeft acc)
  case Nil
  then show ?case by simp
next
  case (Cons p ps)
  show ?case
  proof (cases "basename (part_name p) = []")
    case True
    then have "upload_array toLowerCase clock k fs filesLeft acc ps = (Inr req_files, fs', k')"
      using Cons.prems by simp
    from Cons.IH[OF this] show ?thesis by auto
  next
    case named: False
    have len: "filesLeft \<noteq> 0" using Cons.prems named by (auto split: if_splits)
    show ?thesis
    proof (cases "fileFilter toLowerCase (basename (part_name p))")
      case (Inl msg)
      then show ?thesis using Cons.prems len named by simp
    next
      case (Inr b)
      show ?thesis
      proof (cases b)
        case False
        then have "upload_array toLowerCase clock k fs (filesLeft - 1) acc ps =
                     (Inr req_files, fs', k')"
          using Cons.prems len named Inr by simp
        from Cons.IH[OF this] show ?thesis by auto
      next
        case True
        let ?f = "\<lparr>originalname = basename (part_name p),
                   filename_up = storage_filename (clock k) (basename (part_name p)),
                   path_up = path_join UPLOAD_DIR
                               (storage_filename (clock k) (basename (part_name p))),
                   size_up = int (length (part_bytes p))\<rparr>"
        have small: "\<not> MAX_FILE_SIZE < length (part_bytes p)"
          using Cons.prems len named Inr True by (auto simp: Let_def split: if_splits)
        then have "upload_array toLowerCase clock (Suc k) (fs(path_up ?f \<mapsto> part_bytes p))
                     (filesLeft - 1) (acc @ [?f]) ps
                   = (Inr req_files, fs', k')"
          using Cons.prems len named Inr True by (simp add: Let_def)
        from Cons.IH[OF this] obtain news where
          n: "req_files = (acc @ [?f]) @ news"
             "\<forall>f \<in> set news. \<exists>p \<in> set ps. \<exists>j.
                fileFilter toLowerCase (basename (part_name p)) = Inr True \<and>
                originalname f = basename (part_name p) \<and>
                filename_up f = storage_filename (clock j) (basename (part_name p)) \<and>
                path_up f = path_join UPLOAD_DIR (filename_up f)"
          by blast
        have "req_files = acc @ (?f # news)" using n(1) by simp
        moreover have "\<forall>f \<in> set (?f # news). \<exists>p' \<in> set (p # ps). \<exists>j.
                fileFilter toLowerCase (basename (part_name p')) = Inr True \<and>
                originalname f = basename (part_name p') \<and>
                filename_up f = storage_filename (clock j) (basename (part_name p')) \<and>
                path_up f = path_join UPLOAD_DIR (filename_up f)"
          using n(2) Inr True by auto
        ultimately show ?thesis by blast
      qed
    qed
  qed
qed

lemma upload_array_blobs:
  "upload_array toLowerCase clock k fs filesLeft acc parts = (Inr req_files, fs', k') \<Longrightarrow>
   \<forall>f \<in> set acc. fs (path_up f) \<noteq> None \<Longrightarrow>
   \<forall>f \<in> set req_files. fs' (path_up f) \<noteq> None"
proof (induction parts arbitrary: k fs filesLeft acc)
  case Nil
  then show ?case by simp
next
  case (Cons p ps)
  show ?case
  proof (cases "basename (part_name p) = []")
    case True
    then have "upload_array toLowerCase clock k fs filesLeft acc ps = (Inr req_files, fs', k')"
      using Cons.prems(1) by simp
    from Cons.IH[OF this Cons.prems(2)] show ?thesis .
  next
    case named: False
    have len: "filesLeft \<noteq> 0" using Cons.prems(1) named by (auto split: if_splits)
    show ?thesis
    proof (cases "fileFilter toLowerCase (basename (part_name p))")
      case (Inl msg)
      then show ?thesis using Cons.prems(1) len named by simp
    next
      case (Inr b)
      show ?thesis
      proof (cases b)
        case False
        then have "upload_array toLowerCase clock k fs (filesLeft - 1) acc ps =
                     (Inr req_files, fs', k')"
          using Cons.prems(1) len named Inr by simp
        from Cons.IH[OF this Cons.prems(2)] show ?thesis .
      next
        case True
        let ?f = "\<lparr>originalname = basename (part_name p),
                   filename_up = storage_filename (clock k) (basename (part_name p)),
                   path_up = path_join UPLOAD_DIR
                               (storage_filename (clock k) (basename (part_name p))),
                   size_up = int (length (part_bytes p))\<rparr>"
        have small: "\<not> MAX_FILE_SIZE < length (part_bytes p)"
          using Cons.prems(1) len named Inr True by (auto simp: Let_def split: if_splits)
        then have u: "upload_array toLowerCase clock (Suc k) (fs(path_up ?f \<mapsto> part_bytes p))
                     (filesLeft - 1) (acc @ [?f]) ps
                   = (Inr req_files, fs', k')"
          using Cons.prems(1) len named Inr True by (simp add: Let_def)
        have "\<forall>g \<in> set (acc @ [?f]). (fs(path_up ?f \<mapsto> part_bytes p)) (path_up g) \<noteq> None"
          using Cons.prems(2) by auto
        from Cons.IH[OF u this] show ?thesis .
      qed
    qed
  qed
qed

text \<open>
  Whatever the outcome, the middleware changes the upload directory only at the paths of
  the names that the storage gives to the parts of the request.
\<close>

lemma remove_uploaded_frame:
  "remove_uploaded fs_done fs x \<noteq> fs x \<Longrightarrow> x \<in> path_up ` set fs_done"
  unfolding remove_uploaded_def
proof (induction fs_done arbitrary: fs)
  case Nil
  then show ?case by simp
next
  case (Cons a rest)
  show ?case
  proof (cases "x = path_up a")
    case True
    then show ?thesis by simp
  next
    case False
    then have e: "(fs(path_up a := None)) x = fs x" by simp
    have "foldl (\<lambda>m f. m(path_up f := None)) (fs(path_up a := None)) rest x \<noteq>
          (fs(path_up a := None)) x"
      unfolding e using Cons.prems by (simp only: foldl_Cons simp_thms)
    from Cons.IH[OF this] show ?thesis by simp
  qed
qed

lemma upload_array_frame:
  "upload_array toLowerCase clock k fs filesLeft acc parts = (res, fs', k') \<Longrightarrow>
   fs' x \<noteq> fs x \<Longrightarrow>
   x \<in> path_up ` set acc \<or>
   (\<exists>p \<in> set parts. \<exists>j.
      x = path_join UPLOAD_DIR (storage_filename (clock j) (basename (part_name p))))"
proof (induction parts arbitrary: k fs filesLeft acc)
  case Nil
  then show ?case by simp
next
  case (Cons p ps)
  show ?case
  proof (cases "basename (part_name p) = []")
    case True
    then have "upload_array toLowerCase clock k fs filesLeft acc ps = (res, fs', k')"
      using Cons.prems(1) by simp
    from Cons.IH[OF this Cons.prems(2)] show ?thesis by auto
  next
    case named: False
    show ?thesis
    proof (cases "filesLeft = 0")
      case True
      then have "fs' = remove_uploaded acc fs" using Cons.prems(1) named by simp
      then show ?thesis using Cons.prems(2) remove_uploaded_frame[of acc fs x] by simp
    next
      case len: False
      show ?thesis
      proof (cases "fileFilter toLowerCase (basename (part_name p))")
        case (Inl msg)
        then have "fs' = remove_uploaded acc fs" using Cons.prems(1) named len by simp
        then show ?thesis using Cons.prems(2) remove_uploaded_frame[of acc fs x] by simp
      next
        case (Inr b)
        show ?thesis
        proof (cases b)
          case False
          then have "upload_array toLowerCase clock k fs (filesLeft - 1) acc ps = (res, fs', k')"
            using Cons.prems(1) len named Inr by simp
          from Cons.IH[OF this Cons.prems(2)] show ?thesis by auto
        next
          case True
          let ?n = "storage_filename (clock k) (basename (part_name p))"
          let ?f = "\<lparr>originalname = basename (part_name p), filename_up = ?n,
                     path_up = path_join UPLOAD_DIR ?n,
                     size_up = int (length (part_bytes p))\<rparr>"
          have here: "\<exists>q \<in> set (p # ps). \<exists>j.
                 path_join UPLOAD_DIR ?n =
                 path_join UPLOAD_DIR (storage_filename (clock j) (basename (part_name q)))"
            by auto
          show ?thesis
          proof (cases "MAX_FILE_SIZE < length (part_bytes p)")
            case big: True
            then have "fs' = remove_uploaded (acc @ [?f]) fs"
              using Cons.prems(1) len named Inr True by (simp add: Let_def)
            then have "x \<in> path_up ` set (acc @ [?f])"
              using Cons.prems(2) remove_uploaded_frame[of "acc @ [?f]" fs x] by simp
            then have "x \<in> path_up ` set acc \<or> x = path_join UPLOAD_DIR ?n" by auto
            then show ?thesis using here by blast
          next
            case small: False
            then have u: "upload_array toLowerCase clock (Suc k)
                            (fs(path_up ?f \<mapsto> part_bytes p)) (filesLeft - 1) (acc @ [?f]) ps
                          = (res, fs', k')"
              using Cons.prems(1) len named Inr True by (simp add: Let_def)
            show ?thesis
            proof (cases "x = path_join UPLOAD_DIR ?n")
              case True
              then show ?thesis using here by blast
            next
              case other: False
              then have "fs' x \<noteq> (fs(path_up ?f \<mapsto> part_bytes p)) x"
                using Cons.prems(2) by simp
              from Cons.IH[OF u this] have
                "x \<in> path_up ` set (acc @ [?f]) \<or>
                 (\<exists>q \<in> set ps. \<exists>j.
                    x = path_join UPLOAD_DIR (storage_filename (clock j) (basename (part_name q))))" .
              then show ?thesis using other by auto
            qed
          qed
        qed
      qed
    qed
  qed
qed

subsection \<open>The upload handler\<close>

lemma upload_each_step:
  "upload_each toLowerCase md5 clock fs notes (d, up, errs, k) f = (d', up', errs', k') \<Longrightarrow>
   (d' = d \<and> up' = up) \<or>
   (\<exists>r. files (db_read d') = files (db_read d) @ [r] \<and> up' = up @ [r] \<and>
        filename r = filename_up f \<and> originalName r = originalname f \<and>
        path r = path_up f \<and>
        type_rec r = type_or_unknown (toLowerCase (extname (originalname f))))"
  by (auto simp: upload_each_def Let_def addFile_def db_write_def db_read_def
      split: sum.splits)

lemma upload_each_fold:
  "foldl (upload_each toLowerCase md5 clock fs notes) (d, up, errs, k) req_files =
     (d', up', errs', k') \<Longrightarrow>
   \<exists>news. files (db_read d') = files (db_read d) @ news \<and> up' = up @ news \<and>
     (\<forall>r \<in> set news. \<exists>f \<in> set req_files.
        filename r = filename_up f \<and> originalName r = originalname f \<and>
        path r = path_up f \<and>
        type_rec r = type_or_unknown (toLowerCase (extname (originalname f))))"
proof (induction req_files arbitrary: d up errs k)
  case Nil
  then show ?case by simp
next
  case (Cons f fs')
  obtain d1 up1 errs1 k1 where
    s: "upload_each toLowerCase md5 clock fs notes (d, up, errs, k) f = (d1, up1, errs1, k1)"
    by (cases "upload_each toLowerCase md5 clock fs notes (d, up, errs, k) f") auto
  with Cons.prems have
    "foldl (upload_each toLowerCase md5 clock fs notes) (d1, up1, errs1, k1) fs' =
       (d', up', errs', k')"
    by simp
  from Cons.IH[OF this] obtain news where
    n: "files (db_read d') = files (db_read d1) @ news" "up' = up1 @ news"
       "\<forall>r \<in> set news. \<exists>f \<in> set fs'.
          filename r = filename_up f \<and> originalName r = originalname f \<and>
          path r = path_up f \<and>
          type_rec r = type_or_unknown (toLowerCase (extname (originalname f)))"
    by blast
  from upload_each_step[OF s] show ?case
  proof
    assume "d1 = d \<and> up1 = up"
    then have "files (db_read d') = files (db_read d) @ news \<and> up' = up @ news"
      using n(1,2) by simp
    moreover have "\<forall>r \<in> set news. \<exists>g \<in> set (f # fs').
          filename r = filename_up g \<and> originalName r = originalname g \<and>
          path r = path_up g \<and>
          type_rec r = type_or_unknown (toLowerCase (extname (originalname g)))"
      using n(3) by auto
    ultimately show ?thesis by blast
  next
    assume "\<exists>r. files (db_read d1) = files (db_read d) @ [r] \<and> up1 = up @ [r] \<and>
        filename r = filename_up f \<and> originalName r = originalname f \<and>
        path r = path_up f \<and>
        type_rec r = type_or_unknown (toLowerCase (extname (originalname f)))"
    then obtain r where
      r: "files (db_read d1) = files (db_read d) @ [r]" "up1 = up @ [r]"
         "filename r = filename_up f" "originalName r = originalname f"
         "path r = path_up f"
         "type_rec r = type_or_unknown (toLowerCase (extname (originalname f)))"
      by blast
    have "files (db_read d') = files (db_read d) @ (r # news) \<and> up' = up @ (r # news)"
      using n(1,2) r(1,2) by simp
    moreover have "\<forall>r' \<in> set (r # news). \<exists>g \<in> set (f # fs').
          filename r' = filename_up g \<and> originalName r' = originalname g \<and>
          path r' = path_up g \<and>
          type_rec r' = type_or_unknown (toLowerCase (extname (originalname g)))"
      using n(3) r(3,4,5,6) by auto
    ultimately show ?thesis by blast
  qed
qed

text \<open>The handler leaves the upload directory as the middleware hands it over.\<close>

lemma post_upload_uploads:
  "uploads (fst (post_upload toLowerCase md5 clock w body_notes parts)) =
   fst (snd (upload_array toLowerCase clock 0 (uploads w) 20 [] parts))"
  by (auto simp: post_upload_def upload_handler_def Let_def split: prod.splits sum.splits)

lemma post_upload_frame:
  "uploads (fst (post_upload toLowerCase md5 clock w body_notes parts)) x \<noteq> uploads w x \<Longrightarrow>
   \<exists>p \<in> set parts. \<exists>j.
     x = path_join UPLOAD_DIR (storage_filename (clock j) (basename (part_name p)))"
proof -
  assume c: "uploads (fst (post_upload toLowerCase md5 clock w body_notes parts)) x \<noteq> uploads w x"
  obtain res fs k where
    u: "upload_array toLowerCase clock 0 (uploads w) 20 [] parts = (res, fs, k)"
    by (cases "upload_array toLowerCase clock 0 (uploads w) 20 [] parts") auto
  then have "fs x \<noteq> uploads w x" using c by (simp add: post_upload_uploads)
  from upload_array_frame[OF u this] show ?thesis by simp
qed

text \<open>
  The route as a whole keeps the stored records and appends new ones; each new record
  comes from a part that the filter accepted, and its blob is at its path.
\<close>

lemma post_upload_new_records:
  "\<exists>news. files (db_read (disk (fst (post_upload toLowerCase md5 clock w body_notes parts)))) =
            files (db_read (disk w)) @ news \<and>
     (\<forall>r \<in> set news. \<exists>p \<in> set parts. \<exists>j.
        fileFilter toLowerCase (basename (part_name p)) = Inr True \<and>
        originalName r = basename (part_name p) \<and>
        filename r = storage_filename (clock j) (basename (part_name p)) \<and>
        type_rec r = type_or_unknown (toLowerCase (extname (basename (part_name p)))) \<and>
        path r = path_join UPLOAD_DIR (filename r) \<and>
        uploads (fst (post_upload toLowerCase md5 clock w body_notes parts)) (path r) \<noteq> None)"
proof -
  let ?w' = "fst (post_upload toLowerCase md5 clock w body_notes parts)"
  obtain res fs k where
    u: "upload_array toLowerCase clock 0 (uploads w) 20 [] parts = (res, fs, k)"
    by (cases "upload_array toLowerCase clock 0 (uploads w) 20 [] parts") auto
  have up: "uploads ?w' = fs" using u by (simp add: post_upload_uploads)
  show ?thesis
  proof (cases res)
    case (Inl err)
    then have "disk ?w' = disk w"
      using u by (simp add: post_upload_def)
    then show ?thesis by simp
  next
    case (Inr req_files)
    from upload_array_accepted[OF u[unfolded Inr]] have
      a: "\<forall>f \<in> set req_files. \<exists>p \<in> set parts. \<exists>j.
            fileFilter toLowerCase (basename (part_name p)) = Inr True \<and>
            originalname f = basename (part_name p) \<and>
            filename_up f = storage_filename (clock j) (basename (part_name p)) \<and>
            path_up f = path_join UPLOAD_DIR (filename_up f)"
      by simp
    from upload_array_blobs[OF u[unfolded Inr]] have
      b: "\<forall>f \<in> set req_files. fs (path_up f) \<noteq> None"
      by simp
    show ?thesis
    proof (cases "req_files = []")
      case True
      then have "disk ?w' = disk w"
        using u Inr by (simp add: post_upload_def upload_handler_def)
      then show ?thesis by simp
    next
      case False
      let ?notes = "if truthy body_notes then the body_notes else []"
      obtain d' up' errs' k' where
        f: "foldl (upload_each toLowerCase md5 clock fs ?notes) (disk w, [], [], k) req_files =
              (d', up', errs', k')"
        by (cases "foldl (upload_each toLowerCase md5 clock fs ?notes) (disk w, [], [], k)
                     req_files") auto
      have dk: "disk ?w' = d'"
        using u Inr False f by (simp add: post_upload_def upload_handler_def Let_def)
      from upload_each_fold[OF f] obtain news where
        n: "files (db_read d') = files (db_read (disk w)) @ news"
           "\<forall>r \<in> set news. \<exists>f \<in> set req_files.
              filename r = filename_up f \<and> originalName r = originalname f \<and>
              path r = path_up f \<and>
              type_rec r = type_or_unknown (toLowerCase (extname (originalname f)))"
        by blast
      have "\<forall>r \<in> set news. \<exists>p \<in> set parts. \<exists>j.
              fileFilter toLowerCase (basename (part_name p)) = Inr True \<and>
              originalName r = basename (part_name p) \<and>
              filename r = storage_filename (clock j) (basename (part_name p)) \<and>
              type_rec r = type_or_unknown (toLowerCase (extname (basename (part_name p)))) \<and>
              path r = path_join UPLOAD_DIR (filename r) \<and>
              uploads ?w' (path r) \<noteq> None"
      proof
        fix r assume "r \<in> set news"
        with n(2) obtain f where
          f: "f \<in> set req_files" "filename r = filename_up f" "originalName r = originalname f"
             "path r = path_up f"
             "type_rec r = type_or_unknown (toLowerCase (extname (originalname f)))"
          by blast
        from a f(1) obtain p j where
          pj: "p \<in> set parts" "fileFilter toLowerCase (basename (part_name p)) = Inr True"
          "originalname f = basename (part_name p)"
          "filename_up f = storage_filename (clock j) (basename (part_name p))"
          "path_up f = path_join UPLOAD_DIR (filename_up f)"
          by blast
        have "uploads ?w' (path r) \<noteq> None" using b f(1,4) up by simp
        then show "\<exists>p \<in> set parts. \<exists>j.
              fileFilter toLowerCase (basename (part_name p)) = Inr True \<and>
              originalName r = basename (part_name p) \<and>
              filename r = storage_filename (clock j) (basename (part_name p)) \<and>
              type_rec r = type_or_unknown (toLowerCase (extname (basename (part_name p)))) \<and>
              path r = path_join UPLOAD_DIR (filename r) \<and>
              uploads ?w' (path r) \<noteq> None"
          using pj f(2,3,4,5) by auto
      qed
      then show ?thesis using n(1) dk by auto
    qed
  qed
qed

text \<open>One accepted part within the size limit: the record that the route stores.\<close>

lemma post_upload_single:
  "basename (part_name p) \<noteq> [] \<Longrightarrow>
   fileFilter toLowerCase (basename (part_name p)) = Inr True \<Longrightarrow>
   length (part_bytes p) \<le> MAX_FILE_SIZE \<Longrightarrow>
   disk (fst (post_upload toLowerCase md5 clock w body_notes [p])) =
     Document
       \<lparr>files = files (db_read (disk w)) @
          [\<lparr>filename = storage_filename (clock 0) (basename (part_name p)),
            originalName = basename (part_name p),
            type_rec = type_or_unknown (toLowerCase (extname (basename (part_name p)))),
            size_rec = int (length (part_bytes p)),
            hash = md5 (part_bytes p),
            notes_rec = (if truthy body_notes then the body_notes else []),
            path = path_join UPLOAD_DIR (storage_filename (clock 0) (basename (part_name p))),
            id_rec = nextId (db_read (disk w)),
            uploadDate = clock 1,
            status = str ''uploaded''\<rparr>],
        nextId = js_add (nextId (db_read (disk w))) 1\<rparr>"
  by (simp add: post_upload_def upload_handler_def upload_each_def getFileHash_def
      addFile_def db_write_def Let_def)

lemma post_upload_rejects:
  "fst (upload_array toLowerCase clock 0 (uploads w) 20 [] parts) = Inl err \<Longrightarrow>
   snd (post_upload toLowerCase md5 clock w body_notes parts) = error_middleware err \<and>
   disk (fst (post_upload toLowerCase md5 clock w body_notes parts)) = disk w"
  by (cases "upload_array toLowerCase clock 0 (uploads w) 20 [] parts")
     (simp add: post_upload_def)

subsection \<open>Concrete names\<close>

lemma pad2: "pad 2 n = [48 + n div 10 mod 10, 48 + n mod 10]"
  by (simp add: numeral_2_eq_2)

lemma pad3: "pad 3 n = pad 2 (n div 10) @ [48 + n mod 10]"
proof -
  have "(3::nat) = Suc 2" by simp
  then show ?thesis by (simp only: pad.simps)
qed

lemma pad4: "pad 4 n = pad 3 (n div 10) @ [48 + n mod 10]"
proof -
  have "(4::nat) = Suc 3" by simp
  then show ?thesis by (simp only: pad.simps)
qed

lemma civil_0: "civil_from_days 0 = (1970, 1, 1)"
  unfolding civil_from_days_def Let_def by simp

lemma civil_11016: "civil_from_days 11016 = (2000, 2, 29)"
  unfolding civil_from_days_def Let_def by simp

lemma civil_19675: "civil_from_days 19675 = (2023, 11, 14)"
  unfolding civil_from_days_def Let_def by simp

lemma toISOString_epoch: "toISOString 0 = str ''1970-01-01T00:00:00.000Z''"
proof -
  have d: "(0::int) div 86400000 = 0" by simp
  have m: "(0::int) mod 86400000 = 0" by simp
  show ?thesis
    unfolding toISOString_def Let_def d m civil_0 by (simp add: str_def pad2 pad3 pad4)
qed

lemma toISOString_leap_day: "toISOString 951868799999 = str ''2000-02-29T23:59:59.999Z''"
proof -
  have d: "(951868799999::int) div 86400000 = 11016" by simp
  have m: "(951868799999::int) mod 86400000 = 86399999" by simp
  show ?thesis
    unfolding toISOString_def Let_def d m civil_11016 by (simp add: str_def pad2 pad3 pad4)
qed

lemma toISOString_sample: "toISOString 1700000000000 = str ''2023-11-14T22:13:20.000Z''"
proof -
  have d: "(1700000000000::int) div 86400000 = 19675" by simp
  have m: "(1700000000000::int) mod 86400000 = 80000000" by simp
  show ?thesis
    unfolding toISOString_def Let_def d m civil_19675 by (simp add: str_def pad2 pad3 pad4)
qed

lemma passwd_name:
  "storage_filename 1700000000000 (str ''passwd.csv'') =
     str ''2023-11-14T22-13-20-000Z_passwd.csv''"
  unfolding storage_filename_def Let_def toISOString_sample
  by (simp add: replace_colon_dot_def replace_unsafe_def safe_unit_def str_def)

lemma report_name:
  "storage_filename 1700000000000 (str ''Q1 report (final).csv'') =
     str ''2023-11-14T22-13-20-000Z_Q1_report__final_.csv''"
  unfolding storage_filename_def Let_def toISOString_sample
  by (simp add: replace_colon_dot_def replace_unsafe_def safe_unit_def str_def)

lemma base_a: "basename (str ''a.csv'') = str ''a.csv''"
  by (simp add: basename_def Let_def str_def)

lemma base_b: "basename (str ''b.exe'') = str ''b.exe''"
  by (simp add: basename_def Let_def str_def)

lemma base_c: "basename (str ''c.pdf'') = str ''c.pdf''"
  by (simp add: basename_def Let_def str_def)

lemma base_passwd: "basename (str ''../../etc/passwd.csv'') = str ''passwd.csv''"
  by (simp add: basename_def Let_def str_def)

lemma base_q1: "basename (str ''Q1 report (final).csv'') = str ''Q1 report (final).csv''"
  by (simp add: basename_def Let_def str_def)

lemma base_report: "basename (str ''Report.XLSX'') = str ''Report.XLSX''"
  by (simp add: basename_def Let_def str_def)

lemma ext_csv: "toLowerCase_ascii (extname (str ''a.csv'')) = str ''.csv''"
  by (simp add: toLowerCase_ascii_def extname_def last_component_def Let_def str_def)

lemma ext_exe: "toLowerCase_ascii (extname (str ''b.exe'')) = str ''.exe''"
  by (simp add: toLowerCase_ascii_def extname_def last_component_def Let_def str_def)

lemma ext_passwd: "toLowerCase_ascii (extname (str ''passwd.csv'')) = str ''.csv''"
  by (simp add: toLowerCase_ascii_def extname_def last_component_def Let_def str_def)

lemma ext_q1: "toLowerCase_ascii (extname (str ''Q1 report (final).csv'')) = str ''.csv''"
  by (simp add: toLowerCase_ascii_def extname_def last_component_def Let_def str_def)

lemma ext_report: "toLowerCase_ascii (extname (str ''Report.XLSX'')) = str ''.xlsx''"
  by (simp add: toLowerCase_ascii_def extname_def last_component_def Let_def str_def)

lemma lookup_csv: "map_of ALLOWED_EXTENSIONS (str ''.csv'') = Some (str ''spreadsheet'')"
  by (simp add: ALLOWED_EXTENSIONS_def str_def)

lemma lookup_xlsx: "map_of ALLOWED_EXTENSIONS (str ''.xlsx'') = Some (str ''spreadsheet'')"
  by (simp add: ALLOWED_EXTENSIONS_def str_def)

lemma lookup_exe: "map_of ALLOWED_EXTENSIONS (str ''.exe'') = None"
  by (simp add: ALLOWED_EXTENSIONS_def str_def)

lemma find_three:
  "find (\<lambda>p. map_of ALLOWED_EXTENSIONS
               (toLowerCase_ascii (extname (basename (part_name p)))) = None) three_parts
   = Some (sample_part (str ''b.exe''))"
  by (simp add: three_parts_def sample_part_def base_a base_b ext_csv ext_exe lookup_csv
      lookup_exe)

lemma accept_passwd: "fileFilter toLowerCase_ascii (str ''passwd.csv'') = Inr True"
  by (simp add: fileFilter_accepts_iff ext_passwd lookup_csv)

lemma accept_q1: "fileFilter toLowerCase_ascii (str ''Q1 report (final).csv'') = Inr True"
  by (simp add: fileFilter_accepts_iff ext_q1 lookup_csv)

lemma accept_report: "fileFilter toLowerCase_ascii (str ''Report.XLSX'') = Inr True"
  by (simp add: fileFilter_accepts_iff ext_report lookup_xlsx)

lemma names_not_empty:
  "str ''a.csv'' \<noteq> []" "str ''b.exe'' \<noteq> []" "str ''c.pdf'' \<noteq> []" "str ''passwd.csv'' \<noteq> []"
  "str ''Q1 report (final).csv'' \<noteq> []" "str ''Report.XLSX'' \<noteq> []"
  by (simp_all add: str_def)

subsection \<open>A batch with a file of a disallowed type\<close>

text \<open>
  C1, as stated: for the batch \<open>a.csv\<close>, \<open>b.exe\<close>, \<open>c.pdf\<close> the response is not a list of
  two records and one failure with \<open>success: true\<close>. The filter's error for \<open>b.exe\<close> ends
  the request: the response is the error middleware's, with status 500 and
  \<open>success: false\<close>, and nothing is written to the store.
\<close>

theorem upload_three_one_disallowed:
  "snd (post_upload toLowerCase_ascii sample_md5 sample_clock empty_world None three_parts) =
     \<lparr>code = 500,
      body = JObject [(str ''success'', JBool False),
                      (str ''error'', JString (str ''File type .exe is not allowed''))]\<rparr> \<and>
   disk (fst (post_upload toLowerCase_ascii sample_md5 sample_clock empty_world None three_parts))
     = Unreadable"
proof -
  have "fst (upload_array toLowerCase_ascii sample_clock 0 (uploads empty_world) 20 []
               three_parts) =
          Inl (Error (str ''File type ''
                      @ toLowerCase_ascii
                          (extname (basename (part_name (sample_part (str ''b.exe'')))))
                      @ str '' is not allowed''))"
    by (rule upload_array_rejects[OF _ _ find_three])
       (simp_all add: three_parts_def sample_part_def MAX_FILE_SIZE_def base_a base_b base_c
          names_not_empty)
  moreover have "str ''File type '' @ str ''.exe'' @ str '' is not allowed'' =
                 str ''File type .exe is not allowed''"
    by (simp add: str_def)
  ultimately show ?thesis
    using post_upload_rejects[of toLowerCase_ascii sample_clock empty_world three_parts _
        sample_md5 None]
    by (simp add: error_middleware_def failure_def sample_part_def base_b ext_exe
        empty_world_def)
qed

text \<open>
  C1, amended. For a batch of at most 20 files with a reported name, each within the size
  limit, in which some file has an extension outside the allow-list (so also for 3 files
  of which exactly 1 is disallowed), the request is aborted as a whole: the response has
  status 500 and the body \<^verbatim>\<open>{success: false, error: 'File type <ext> is not allowed'}\<close>
  for the first such file \<open>q\<close>, where \<open><ext>\<close> is the lower-cased extension of its
  reported name, and the store is left as it was.
\<close>

theorem upload_with_disallowed_file_aborts:
  "length parts \<le> 20 \<Longrightarrow>
   \<forall>p \<in> set parts. basename (part_name p) \<noteq> [] \<and> length (part_bytes p) \<le> MAX_FILE_SIZE \<Longrightarrow>
   find (\<lambda>p. map_of ALLOWED_EXTENSIONS (toLowerCase (extname (basename (part_name p)))) = None)
     parts = Some q \<Longrightarrow>
   snd (post_upload toLowerCase md5 clock w body_notes parts) =
     \<lparr>code = 500,
      body = JObject [(str ''success'', JBool False),
                      (str ''error'',
                       JString (str ''File type ''
                                @ toLowerCase (extname (basename (part_name q)))
                                @ str '' is not allowed''))]\<rparr> \<and>
   disk (fst (post_upload toLowerCase md5 clock w body_notes parts)) = disk w"
proof -
  assume a: "length parts \<le> 20"
    "\<forall>p \<in> set parts. basename (part_name p) \<noteq> [] \<and> length (part_bytes p) \<le> MAX_FILE_SIZE"
    "find (\<lambda>p. map_of ALLOWED_EXTENSIONS (toLowerCase (extname (basename (part_name p)))) = None)
       parts = Some q"
  have "fst (upload_array toLowerCase clock 0 (uploads w) 20 [] parts) =
          Inl (Error (str ''File type '' @ toLowerCase (extname (basename (part_name q)))
                      @ str '' is not allowed''))"
    using a by (intro upload_array_rejects) simp_all
  from post_upload_rejects[OF this, of md5 body_notes] show ?thesis
    by (simp add: error_middleware_def failure_def)
qed

theorem upload_with_disallowed_file_aborts_witness:
  "length three_parts \<le> 20 \<and>
   find (\<lambda>p. map_of ALLOWED_EXTENSIONS
               (toLowerCase_ascii (extname (basename (part_name p)))) = None) three_parts
     = Some (sample_part (str ''b.exe'')) \<and>
   snd (post_upload toLowerCase_ascii sample_md5 sample_clock empty_world (Some (str ''march''))
          three_parts) =
     \<lparr>code = 500,
      body = JObject [(str ''success'', JBool False),
                      (str ''error'',
                       JString (str ''File type ''
                                @ toLowerCase_ascii
                                    (extname (basename (part_name (sample_part (str ''b.exe'')))))
                                @ str '' is not allowed''))]\<rparr> \<and>
   disk (fst (post_upload toLowerCase_ascii sample_md5 sample_clock empty_world
                (Some (str ''march'')) three_parts))
     = disk empty_world"
proof -
  have l: "length three_parts \<le> 20" by (simp add: three_parts_def)
  have s: "\<forall>p \<in> set three_parts.
             basename (part_name p) \<noteq> [] \<and> length (part_bytes p) \<le> MAX_FILE_SIZE"
    by (simp add: three_parts_def sample_part_def MAX_FILE_SIZE_def base_a base_b base_c
        names_not_empty)
  show ?thesis
    using l find_three
      upload_with_disallowed_file_aborts[OF l s find_three, of sample_md5 sample_clock
        empty_world "Some (str ''march'')"]
    by blast
qed

subsection \<open>Stored names\<close>

text \<open>
  C7, as stated: the record does not keep the string that the client submitted. The
  multipart parser of the upload middleware reports the part of the submitted name after
  its last slash or backslash, since \<^verbatim>\<open>multer\<close> is set up without \<^verbatim>\<open>preservePath\<close>; so for
  the submitted name \<^verbatim>\<open>../../etc/passwd.csv\<close> the record has the \<open>originalName\<close>
  \<^verbatim>\<open>passwd.csv\<close>, and the stored name is built from \<^verbatim>\<open>passwd.csv\<close>.
\<close>

theorem originalName_is_last_component:
  "map originalName (files (db_read (disk (fst (post_upload toLowerCase_ascii sample_md5
       sample_clock empty_world None [sample_part (str ''../../etc/passwd.csv'')]))))) =
     [str ''passwd.csv''] \<and>
   map filename (files (db_read (disk (fst (post_upload toLowerCase_ascii sample_md5
       sample_clock empty_world None [sample_part (str ''../../etc/passwd.csv'')]))))) =
     [str ''2023-11-14T22-13-20-000Z_passwd.csv''] \<and>
   str ''passwd.csv'' \<noteq> str ''../../etc/passwd.csv''"
proof -
  have n: "basename (part_name (sample_part (str ''../../etc/passwd.csv''))) \<noteq> []"
    by (simp add: sample_part_def base_passwd names_not_empty)
  have a: "fileFilter toLowerCase_ascii
             (basename (part_name (sample_part (str ''../../etc/passwd.csv'')))) = Inr True"
    by (simp add: sample_part_def base_passwd accept_passwd)
  have s: "length (part_bytes (sample_part (str ''../../etc/passwd.csv''))) \<le> MAX_FILE_SIZE"
    by (simp add: sample_part_def MAX_FILE_SIZE_def)
  have c: "sample_clock 0 = 1700000000000" by (simp add: sample_clock_def)
  have "map originalName (files (db_read (disk (fst (post_upload toLowerCase_ascii sample_md5
            sample_clock empty_world None [sample_part (str ''../../etc/passwd.csv'')]))))) =
          [str ''passwd.csv'']"
    unfolding post_upload_single[OF n a s]
    by (simp add: db_read_def empty_world_def sample_part_def base_passwd)
  moreover have "map filename (files (db_read (disk (fst (post_upload toLowerCase_ascii
            sample_md5 sample_clock empty_world None
            [sample_part (str ''../../etc/passwd.csv'')]))))) =
          [str ''2023-11-14T22-13-20-000Z_passwd.csv'']"
    unfolding post_upload_single[OF n a s]
    by (simp add: db_read_def empty_world_def sample_part_def base_passwd c passwd_name)
  moreover have "str ''passwd.csv'' \<noteq> str ''../../etc/passwd.csv''"
    by (simp add: str_def)
  ultimately show ?thesis by blast
qed

text \<open>
  C7, amended. The upload middleware hands to the program the reported name of a file:
  the part of the submitted name after its last slash or backslash, which has no
  separator and is the submitted name itself when that has no separator and is neither
  \<open>.\<close> nor \<open>..\<close>. The name under which a blob is stored is the time stamp of the current
  time (\<^verbatim>\<open>1970-01-01T00-00-00-000Z\<close> for the time value 0,
  \<^verbatim>\<open>2000-02-29T23-59-59-999Z\<close> for 951868799999, \<^verbatim>\<open>2023-11-14T22-13-20-000Z\<close> for
  1700000000000), an underscore, and the reported name in which every code unit outside
  \<^verbatim>\<open>[a-zA-Z0-9._-]\<close> is replaced by an underscore. It contains neither a slash nor a
  backslash and is neither \<open>.\<close> nor \<open>..\<close>. Every record that an upload request adds to
  the store has the reported name, unchanged, as its \<open>originalName\<close>, the stored name as
  its \<open>filename\<close> and the stored name inside the upload directory as its \<open>path\<close>, and
  the blob is at that path; an upload request changes the upload directory only at such
  paths.
\<close>

theorem stored_name_sanitised:
  "storage_filename now name =
     replace_colon_dot (toISOString now) @ str ''_'' @
     map (\<lambda>c. if c \<in> {97..122} \<union> {65..90} \<union> {48..57} \<union> {46, 95, 45} then c else 95) name \<and>
   replace_colon_dot (toISOString 0) = str ''1970-01-01T00-00-00-000Z'' \<and>
   replace_colon_dot (toISOString 951868799999) = str ''2000-02-29T23-59-59-999Z'' \<and>
   replace_colon_dot (toISOString 1700000000000) = str ''2023-11-14T22-13-20-000Z'' \<and>
   47 \<notin> set (storage_filename now name) \<and> 92 \<notin> set (storage_filename now name) \<and>
   storage_filename now name \<noteq> str ''.'' \<and> storage_filename now name \<noteq> str ''..'' \<and>
   47 \<notin> set (basename s) \<and> 92 \<notin> set (basename s) \<and>
   (47 \<notin> set s \<and> 92 \<notin> set s \<and> s \<noteq> str ''.'' \<and> s \<noteq> str ''..'' \<longrightarrow> basename s = s) \<and>
   (\<exists>news. files (db_read (disk (fst (post_upload toLowerCase md5 clock w body_notes parts)))) =
             files (db_read (disk w)) @ news \<and>
      (\<forall>r \<in> set news. \<exists>p \<in> set parts. \<exists>j.
         originalName r = basename (part_name p) \<and>
         filename r = storage_filename (clock j) (basename (part_name p)) \<and>
         path r = path_join UPLOAD_DIR (filename r) \<and>
         uploads (fst (post_upload toLowerCase md5 clock w body_notes parts)) (path r) \<noteq> None)) \<and>
   (uploads (fst (post_upload toLowerCase md5 clock w body_notes parts)) x \<noteq> uploads w x \<longrightarrow>
      (\<exists>p \<in> set parts. \<exists>j.
         x = path_join UPLOAD_DIR (storage_filename (clock j) (basename (part_name p)))))"
proof -
  have one: "storage_filename now name =
     replace_colon_dot (toISOString now) @ str ''_'' @
     map (\<lambda>c. if c \<in> {97..122} \<union> {65..90} \<union> {48..57} \<union> {46, 95, 45} then c else 95) name"
    by (simp add: storage_filename_def Let_def replace_unsafe_eq)
  have t0: "replace_colon_dot (toISOString 0) = str ''1970-01-01T00-00-00-000Z''"
    unfolding toISOString_epoch by (simp add: replace_colon_dot_def str_def)
  have t1: "replace_colon_dot (toISOString 951868799999) = str ''2000-02-29T23-59-59-999Z''"
    unfolding toISOString_leap_day by (simp add: replace_colon_dot_def str_def)
  have t2: "replace_colon_dot (toISOString 1700000000000) = str ''2023-11-14T22-13-20-000Z''"
    unfolding toISOString_sample by (simp add: replace_colon_dot_def str_def)
  have b: "47 \<notin> set s \<and> 92 \<notin> set s \<and> s \<noteq> str ''.'' \<and> s \<noteq> str ''..'' \<longrightarrow> basename s = s"
    using basename_plain[of s] by blast
  from post_upload_new_records[of toLowerCase md5 clock w body_notes parts]
  have recs: "\<exists>news. files (db_read (disk (fst (post_upload toLowerCase md5 clock w body_notes parts)))) =
             files (db_read (disk w)) @ news \<and>
      (\<forall>r \<in> set news. \<exists>p \<in> set parts. \<exists>j.
         originalName r = basename (part_name p) \<and>
         filename r = storage_filename (clock j) (basename (part_name p)) \<and>
         path r = path_join UPLOAD_DIR (filename r) \<and>
         uploads (fst (post_upload toLowerCase md5 clock w body_notes parts)) (path r) \<noteq> None)"
    by blast
  have frame: "uploads (fst (post_upload toLowerCase md5 clock w body_notes parts)) x \<noteq> uploads w x \<longrightarrow>
      (\<exists>p \<in> set parts. \<exists>j.
         x = path_join UPLOAD_DIR (storage_filename (clock j) (basename (part_name p))))"
    using post_upload_frame[of toLowerCase md5 clock w body_notes parts x] by blast
  from one t0 t1 t2 b recs frame show ?thesis
    using storage_filename_no_separator[of now name] storage_filename_not_dots[of now name]
      basename_no_separator[of s]
    by blast
qed

theorem stored_name_sanitised_witness:
  "storage_filename 1700000000000 (str ''Q1 report (final).csv'') =
     str ''2023-11-14T22-13-20-000Z_Q1_report__final_.csv'' \<and>
   47 \<notin> set (storage_filename 1700000000000 (str ''Q1 report (final).csv'')) \<and>
   47 \<notin> set (str ''Q1 report (final).csv'') \<and>
   basename (str ''Q1 report (final).csv'') = str ''Q1 report (final).csv'' \<and>
   map originalName (files (db_read (disk (fst (post_upload toLowerCase_ascii sample_md5
       sample_clock empty_world None [sample_part (str ''Q1 report (final).csv'')]))))) =
     [str ''Q1 report (final).csv''] \<and>
   map filename (files (db_read (disk (fst (post_upload toLowerCase_ascii sample_md5
       sample_clock empty_world None [sample_part (str ''Q1 report (final).csv'')]))))) =
     [str ''2023-11-14T22-13-20-000Z_Q1_report__final_.csv''] \<and>
   map path (files (db_read (disk (fst (post_upload toLowerCase_ascii sample_md5
       sample_clock empty_world None [sample_part (str ''Q1 report (final).csv'')]))))) =
     [str ''uploads/2023-11-14T22-13-20-000Z_Q1_report__final_.csv''] \<and>
   uploads (fst (post_upload toLowerCase_ascii sample_md5 sample_clock empty_world None
       [sample_part (str ''Q1 report (final).csv'')]))
     (str ''uploads/2023-11-14T22-13-20-000Z_Q1_report__final_.csv'') \<noteq>
   uploads empty_world (str ''uploads/2023-11-14T22-13-20-000Z_Q1_report__final_.csv'')"
proof -
  let ?q = "str ''Q1 report (final).csv''"
  let ?x = "str ''uploads/2023-11-14T22-13-20-000Z_Q1_report__final_.csv''"
  let ?w = "fst (post_upload toLowerCase_ascii sample_md5 sample_clock empty_world None
               [sample_part ?q])"
  have n: "basename (part_name (sample_part ?q)) \<noteq> []"
    by (simp add: sample_part_def base_q1 names_not_empty)
  have a: "fileFilter toLowerCase_ascii (basename (part_name (sample_part ?q))) = Inr True"
    by (simp add: sample_part_def base_q1 accept_q1)
  have s: "length (part_bytes (sample_part ?q)) \<le> MAX_FILE_SIZE"
    by (simp add: sample_part_def MAX_FILE_SIZE_def)
  have c: "sample_clock 0 = 1700000000000" by (simp add: sample_clock_def)
  have j: "path_join UPLOAD_DIR (str ''2023-11-14T22-13-20-000Z_Q1_report__final_.csv'') = ?x"
    by (simp add: path_join_def UPLOAD_DIR_def str_def)
  have plain: "47 \<notin> set ?q" "92 \<notin> set ?q" "?q \<noteq> str ''.''" "?q \<noteq> str ''..''"
    by (simp_all add: str_def)
  have o: "map originalName (files (db_read (disk ?w))) = [?q]"
    unfolding post_upload_single[OF n a s]
    by (simp add: db_read_def empty_world_def sample_part_def base_q1)
  have f: "map filename (files (db_read (disk ?w))) =
             [str ''2023-11-14T22-13-20-000Z_Q1_report__final_.csv'']"
    unfolding post_upload_single[OF n a s]
    by (simp add: db_read_def empty_world_def sample_part_def base_q1 c report_name)
  have p: "map path (files (db_read (disk ?w))) = [?x]"
    unfolding post_upload_single[OF n a s]
    by (simp add: db_read_def empty_world_def sample_part_def base_q1 c report_name j)
  note t = stored_name_sanitised[where now = 1700000000000 and name = ?q and s = ?q
      and toLowerCase = toLowerCase_ascii and ?md5.0 = sample_md5 and clock = sample_clock
      and w = empty_world and body_notes = None and parts = "[sample_part ?q]" and x = ?x]
  from t obtain news where
    nw: "files (db_read (disk ?w)) = files (db_read (disk empty_world)) @ news"
        "\<forall>r \<in> set news. uploads ?w (path r) \<noteq> None"
    by blast
  have "files (db_read (disk empty_world)) = []" by (simp add: empty_world_def db_read_def)
  then have "\<forall>r \<in> set (files (db_read (disk ?w))). uploads ?w (path r) \<noteq> None"
    using nw by simp
  moreover have "\<exists>r \<in> set (files (db_read (disk ?w))). path r = ?x"
    using p by (cases "files (db_read (disk ?w))") auto
  ultimately have "uploads ?w ?x \<noteq> None" by auto
  then have u: "uploads ?w ?x \<noteq> uploads empty_world ?x" by (simp add: empty_world_def)
  show ?thesis using report_name plain o f p u t by blast
qed

subsection \<open>Types of uploaded records\<close>

lemma delete_file_disk: "disk (fst (delete_file w pid)) = snd (deleteFile (disk w) pid)"
  by (cases "deleteFile (disk w) pid") (auto simp: delete_file_def Let_def split: option.splits)

text \<open>
  C10. For a name that the filter accepts, the look-up with fallback gives
  \<open>spreadsheet\<close>, \<open>ofx\<close> or \<open>pdf\<close> and never \<open>unknown\<close>. An upload request keeps the
  stored records as they are and appends records of these three types only; a delete
  request keeps a part of the stored records as they are. So when all stored records have
  one of the three types, they still have after an upload request and after a delete
  request.
\<close>

theorem uploaded_type_is_allowed:
  "(fileFilter toLowerCase name = Inr True \<longrightarrow>
      type_or_unknown (toLowerCase (extname name)) \<in> {str ''spreadsheet'', str ''ofx'', str ''pdf''} \<and>
      type_or_unknown (toLowerCase (extname name)) \<noteq> str ''unknown'') \<and>
   (\<exists>news. files (db_read (disk (fst (post_upload toLowerCase md5 clock w body_notes parts)))) =
             files (db_read (disk w)) @ news \<and>
      (\<forall>r \<in> set news. type_rec r \<in> {str ''spreadsheet'', str ''ofx'', str ''pdf''})) \<and>
   mset (files (db_read (disk (fst (delete_file w pid))))) \<subseteq># mset (files (db_read (disk w))) \<and>
   ((\<forall>r \<in> set (files (db_read (disk w))).
        type_rec r \<in> {str ''spreadsheet'', str ''ofx'', str ''pdf''}) \<longrightarrow>
      (\<forall>r \<in> set (files (db_read (disk (fst (post_upload toLowerCase md5 clock w body_notes parts))))).
         type_rec r \<in> {str ''spreadsheet'', str ''ofx'', str ''pdf''}) \<and>
      (\<forall>r \<in> set (files (db_read (disk (fst (delete_file w pid))))).
         type_rec r \<in> {str ''spreadsheet'', str ''ofx'', str ''pdf''}))"
proof -
  let ?S = "{str ''spreadsheet'', str ''ofx'', str ''pdf''}"
  have one: "fileFilter toLowerCase name = Inr True \<longrightarrow>
      type_or_unknown (toLowerCase (extname name)) \<in> ?S \<and>
      type_or_unknown (toLowerCase (extname name)) \<noteq> str ''unknown''"
    using type_of_accepted[of toLowerCase name] unknown_not_allowed by auto
  from post_upload_new_records[of toLowerCase md5 clock w body_notes parts] obtain news where
    n: "files (db_read (disk (fst (post_upload toLowerCase md5 clock w body_notes parts)))) =
          files (db_read (disk w)) @ news"
       "\<forall>r \<in> set news. \<exists>p \<in> set parts. \<exists>j.
          fileFilter toLowerCase (basename (part_name p)) = Inr True \<and>
          originalName r = basename (part_name p) \<and>
          filename r = storage_filename (clock j) (basename (part_name p)) \<and>
          type_rec r = type_or_unknown (toLowerCase (extname (basename (part_name p)))) \<and>
          path r = path_join UPLOAD_DIR (filename r) \<and>
          uploads (fst (post_upload toLowerCase md5 clock w body_notes parts)) (path r) \<noteq> None"
    by blast
  have new: "\<forall>r \<in> set news. type_rec r \<in> ?S"
  proof
    fix r assume "r \<in> set news"
    with n(2) obtain p :: part where
      "fileFilter toLowerCase (basename (part_name p)) = Inr True"
      "type_rec r = type_or_unknown (toLowerCase (extname (basename (part_name p))))"
      by blast
    then show "type_rec r \<in> ?S"
      using type_of_accepted[of toLowerCase "basename (part_name p)"] by simp
  qed
  have two: "\<exists>news. files (db_read (disk (fst (post_upload toLowerCase md5 clock w body_notes parts)))) =
             files (db_read (disk w)) @ news \<and> (\<forall>r \<in> set news. type_rec r \<in> ?S)"
    using n(1) new by blast
  have three: "mset (files (db_read (disk (fst (delete_file w pid))))) \<subseteq>#
               mset (files (db_read (disk w)))"
    using deleteFile_cases[of "disk w" pid] by (auto simp: delete_file_disk db_read_def)
  have four: "(\<forall>r \<in> set (files (db_read (disk w))). type_rec r \<in> ?S) \<longrightarrow>
      (\<forall>r \<in> set (files (db_read (disk (fst (post_upload toLowerCase md5 clock w body_notes parts))))).
         type_rec r \<in> ?S) \<and>
      (\<forall>r \<in> set (files (db_read (disk (fst (delete_file w pid))))). type_rec r \<in> ?S)"
  proof
    assume inv: "\<forall>r \<in> set (files (db_read (disk w))). type_rec r \<in> ?S"
    have "\<forall>r \<in> set (files (db_read (disk (fst (post_upload toLowerCase md5 clock w body_notes parts))))).
            type_rec r \<in> ?S"
      using inv new unfolding n(1) by auto
    moreover have "\<forall>r \<in> set (files (db_read (disk (fst (delete_file w pid))))).
            type_rec r \<in> ?S"
      using inv set_mset_mono[OF three] by auto
    ultimately show
      "(\<forall>r \<in> set (files (db_read (disk (fst (post_upload toLowerCase md5 clock w body_notes parts))))).
         type_rec r \<in> ?S) \<and>
       (\<forall>r \<in> set (files (db_read (disk (fst (delete_file w pid))))). type_rec r \<in> ?S)"
      by blast
  qed
  from one two three four show ?thesis by blast
qed

theorem uploaded_type_is_allowed_witness:
  "fileFilter toLowerCase_ascii (str ''Report.XLSX'') = Inr True \<and>
   type_or_unknown (toLowerCase_ascii (extname (str ''Report.XLSX''))) = str ''spreadsheet'' \<and>
   type_or_unknown (toLowerCase_ascii (extname (str ''Report.XLSX''))) \<noteq> str ''unknown'' \<and>
   map type_rec (files (db_read (disk (fst (post_upload toLowerCase_ascii sample_md5
       sample_clock empty_world None [sample_part (str ''Report.XLSX'')]))))) =
     [str ''spreadsheet'']"
proof -
  have n: "basename (part_name (sample_part (str ''Report.XLSX''))) \<noteq> []"
    by (simp add: sample_part_def base_report names_not_empty)
  have a: "fileFilter toLowerCase_ascii
             (basename (part_name (sample_part (str ''Report.XLSX'')))) = Inr True"
    by (simp add: sample_part_def base_report accept_report)
  have s: "length (part_bytes (sample_part (str ''Report.XLSX''))) \<le> MAX_FILE_SIZE"
    by (simp add: sample_part_def MAX_FILE_SIZE_def)
  have tr: "truthy (map_of ALLOWED_EXTENSIONS (str ''.xlsx''))"
    unfolding lookup_xlsx by (simp add: truthy_def str_def)
  have t: "type_or_unknown (toLowerCase_ascii (extname (str ''Report.XLSX''))) =
             str ''spreadsheet''"
    unfolding type_or_unknown_def ext_report using tr by (simp add: lookup_xlsx)
  have "map type_rec (files (db_read (disk (fst (post_upload toLowerCase_ascii sample_md5
            sample_clock empty_world None [sample_part (str ''Report.XLSX'')]))))) =
          [str ''spreadsheet'']"
    unfolding post_upload_single[OF n a s]
    by (simp add: db_read_def empty_world_def sample_part_def base_report t)
  then show ?thesis
    using accept_report t
      uploaded_type_is_allowed[where toLowerCase = toLowerCase_ascii
        and name = "str ''Report.XLSX''" and ?md5.0 = sample_md5 and clock = sample_clock
        and w = empty_world and body_notes = None
        and parts = "[sample_part (str ''Report.XLSX'')]" and pid = "Some 1"]
    by blast
qed

subsection \<open>Deleting a record whose blob is gone\<close>

lemma find_append_first:
  "\<forall>y \<in> set ys. \<not> P y \<Longrightarrow> P x \<Longrightarrow> find P (ys @ x # zs) = Some x"
  by (induction ys) auto

lemma deleteFile_found:
  "getFileById d pid = Some f \<Longrightarrow>
   \<exists>rest. deleteFile d pid = (Some f, Document ((db_read d)\<lparr>files := rest\<rparr>)) \<and>
     mset (files (db_read d)) = add_mset f (mset rest)"
proof -
  assume g: "getFileById d pid = Some f"
  from deleteFile_cases[of d pid] show ?thesis
  proof
    assume "fst (deleteFile d pid) = None \<and> snd (deleteFile d pid) = d \<and>
            (\<forall>f \<in> set (files (db_read d)). \<not> matches_id pid f)"
    then have "getFileById d pid = None" by (simp add: getFileById_def find_None_iff_all)
    with g show ?thesis by simp
  next
    assume "\<exists>ys x zs. files (db_read d) = ys @ x # zs \<and> matches_id pid x \<and>
              (\<forall>y \<in> set ys. \<not> matches_id pid y) \<and>
              deleteFile d pid = (Some x, Document ((db_read d)\<lparr>files := ys @ zs\<rparr>))"
    then obtain ys x zs where
      h: "files (db_read d) = ys @ x # zs" "matches_id pid x"
         "\<forall>y \<in> set ys. \<not> matches_id pid y"
         "deleteFile d pid = (Some x, Document ((db_read d)\<lparr>files := ys @ zs\<rparr>))"
      by blast
    have "getFileById d pid = Some x"
      using h(1,2,3) by (simp add: getFileById_def find_append_first)
    with g have "x = f" by simp
    then show ?thesis using h(1,4) by auto
  qed
qed

text \<open>
  C8. When the store holds a record for the id and there is no blob at the record's path,
  the delete request answers with status 200 and \<open>success: true\<close>, the record is removed
  from the store and the upload directory is left as it is.
\<close>

theorem delete_record_with_missing_blob:
  "getFileById (disk w) pid = Some f \<Longrightarrow>
   uploads w (path_join UPLOAD_DIR (filename f)) = None \<Longrightarrow>
   delete_file w pid =
     (w\<lparr>disk := snd (deleteFile (disk w) pid)\<rparr>,
      \<lparr>code = 200,
       body = JObject [(str ''success'', JBool True),
                       (str ''message'', JString (str ''File deleted successfully''))]\<rparr>) \<and>
   fst (deleteFile (disk w) pid) = Some f \<and>
   mset (files (db_read (disk w))) =
     add_mset f (mset (files (db_read (snd (deleteFile (disk w) pid)))))"
proof -
  assume g: "getFileById (disk w) pid = Some f"
    and b: "uploads w (path_join UPLOAD_DIR (filename f)) = None"
  from deleteFile_found[OF g] obtain rest where
    r: "deleteFile (disk w) pid = (Some f, Document ((db_read (disk w))\<lparr>files := rest\<rparr>))"
       "mset (files (db_read (disk w))) = add_mset f (mset rest)"
    by blast
  show ?thesis using r b by (simp add: delete_file_def Let_def db_read_def)
qed

theorem delete_record_with_missing_blob_witness:
  "getFileById (disk orphan_world) (Some 7) = Some (sample_file 7 (str ''a.pdf'') 1700000000000) \<and>
   uploads orphan_world
     (path_join UPLOAD_DIR (filename (sample_file 7 (str ''a.pdf'') 1700000000000))) = None \<and>
   delete_file orphan_world (Some 7) =
     (orphan_world\<lparr>disk := snd (deleteFile (disk orphan_world) (Some 7))\<rparr>,
      \<lparr>code = 200,
       body = JObject [(str ''success'', JBool True),
                       (str ''message'', JString (str ''File deleted successfully''))]\<rparr>) \<and>
   snd (deleteFile (disk orphan_world) (Some 7)) = Document \<lparr>files = [], nextId = 8\<rparr>"
proof -
  have g: "getFileById (disk orphan_world) (Some 7) =
             Some (sample_file 7 (str ''a.pdf'') 1700000000000)"
    by (simp add: orphan_world_def getFileById_def db_read_def matches_id_def sample_file_def)
  have b: "uploads orphan_world
     (path_join UPLOAD_DIR (filename (sample_file 7 (str ''a.pdf'') 1700000000000))) = None"
    by (simp add: orphan_world_def)
  have d: "snd (deleteFile (disk orphan_world) (Some 7)) = Document \<lparr>files = [], nextId = 8\<rparr>"
    by (simp add: orphan_world_def deleteFile_def db_read_def db_write_def matches_id_def
        sample_file_def splice1_def Let_def)
  show ?thesis
    using g b d delete_record_with_missing_blob[OF g b] by blast
qed

end
